theory Spec2Isabelle
  imports Main "HOL-Library.Word"
begin

unbundle bit_operations_syntax

section \<open>Data model of main.cpp\<close>

text \<open>
  \<^verbatim>\<open>using Letter = int32_t; using Word = std::array<Letter, kNumLetters>;\<close>
  \<^verbatim>\<open>using WordList = std::vector<Word>; using LetterField = uint32_t;\<close>

  A letter is only ever compared, copied and used as a shift count, so it is an \<open>int\<close>
  (every value the program computes, a \<open>char\<close> minus \<open>'a'\<close>, fits 32 bits). A \<open>Word\<close> is
  the list of its \<open>kNumLetters\<close> letters; the fixed length of \<open>std::array\<close> is the
  predicate \<open>wfWord\<close>. A \<open>LetterField\<close> is a 32-bit word.
\<close>

type_synonym Letter = int
type_synonym Word = "Letter list"
type_synonym WordList = "Word list"
type_synonym LetterField = "32 word"

definition kNumLetters :: nat where
  "kNumLetters = 5"

definition kUnknownLetter :: Letter where
  "kUnknownLetter = - 1"

definition wfWord :: "Word \<Rightarrow> bool" where
  "wfWord w \<longleftrightarrow> length w = kNumLetters"

text \<open>
  What stops a run: a left shift whose count is negative or not less than the width of
  \<open>int\<close> (undefined behaviour), an access outside a vector or an iterator moved past the
  end (undefined behaviour), and a failed \<open>assert\<close> (the program is built with assertions
  on: the source never defines \<open>NDEBUG\<close>).
\<close>

datatype error = UndefinedShift | OutOfBounds | AssertionFailed

text \<open>A range-based \<open>for\<close> over \<open>xs\<close> whose body updates a state and may stop the run.\<close>

fun forEach :: "'a list \<Rightarrow> ('a \<Rightarrow> 's \<Rightarrow> error + 's) \<Rightarrow> 's \<Rightarrow> error + 's" where
  "forEach [] body s = Inr s"
| "forEach (x # xs) body s = (case body x s of Inl e \<Rightarrow> Inl e | Inr s' \<Rightarrow> forEach xs body s')"

text \<open>
  \<^verbatim>\<open>1 << letter\<close>, the literal being a 32-bit \<open>int\<close> and the result stored in a
  \<open>LetterField\<close>. The shift is defined for counts 0 to 31 (count 31 gives the sign bit,
  which the conversion to \<open>uint32_t\<close> keeps as bit 31).
\<close>

definition shiftDefined :: "Letter \<Rightarrow> bool" where
  "shiftDefined l \<longleftrightarrow> 0 \<le> l \<and> l < 32"

definition letter_bit :: "Letter \<Rightarrow> error + LetterField" where
  "letter_bit l = (if shiftDefined l then Inr (push_bit (nat l) 1) else Inl UndefinedShift)"

definition okWord :: "Word \<Rightarrow> bool" where
  "okWord w \<longleftrightarrow> length w = kNumLetters \<and> list_all shiftDefined w"

subsection \<open>class Clues\<close>

text \<open>
  The members \<open>match_\<close>, \<open>wrong_\<close> and \<open>in_answer_\<close> (and \<open>answer_\<close>, \<open>answer_bits_\<close> of
  the derived class) are the fields below; a name here cannot end in an underscore, so
  each carries the suffix \<open>m\<close>.
\<close>

record Clues =
  match_m :: Word
  wrong_m :: "LetterField list"
  in_answer_m :: LetterField

definition wfClues :: "'a Clues_scheme \<Rightarrow> bool" where
  "wfClues c \<longleftrightarrow> length (match_m c) = kNumLetters \<and> length (wrong_m c) = kNumLetters"

text \<open>
  \<^verbatim>\<open>bool matches(const Word &word) const\<close>: the loop over the positions, with its two
  early returns, then the test of \<open>in_answer_\<close> against the letters seen.
\<close>

fun matchesLoop :: "'a Clues_scheme \<Rightarrow> Word \<Rightarrow> nat list \<Rightarrow> LetterField \<Rightarrow> error + bool" where
  "matchesLoop c word [] in_word =
     (if (in_answer_m c AND in_word) \<noteq> in_answer_m c then Inr False else Inr True)"
| "matchesLoop c word (i # is) in_word =
     (let letter = word ! i;
          correct_letter = match_m c ! i
      in if correct_letter \<noteq> kUnknownLetter \<and> correct_letter \<noteq> letter then Inr False
         else (case letter_bit letter of
                 Inl e \<Rightarrow> Inl e
               | Inr bit_of_letter \<Rightarrow>
                   if bit_of_letter AND (wrong_m c ! i) \<noteq> 0 then Inr False
                   else matchesLoop c word is (in_word OR bit_of_letter)))"

definition matches :: "'a Clues_scheme \<Rightarrow> Word \<Rightarrow> error + bool" where
  "matches c word = matchesLoop c word [0..<kNumLetters] 0"

subsection \<open>class WorldleGame\<close>

record WorldleGame = Clues +
  answer_m :: Word
  answer_bits_m :: LetterField

definition wfGame :: "WorldleGame \<Rightarrow> bool" where
  "wfGame game \<longleftrightarrow> wfClues game \<and> length (answer_m game) = kNumLetters"

text \<open>The constructor: \<open>Clues()\<close> fills the arrays, then the loop over the answer's letters.\<close>

fun answerBits :: "Letter list \<Rightarrow> LetterField \<Rightarrow> error + LetterField" where
  "answerBits [] bits = Inr bits"
| "answerBits (l # ls) bits =
     (case letter_bit l of Inl e \<Rightarrow> Inl e | Inr b \<Rightarrow> answerBits ls (bits OR b))"

definition newWorldleGame :: "Word \<Rightarrow> error + WorldleGame" where
  "newWorldleGame answer =
     (case answerBits answer 0 of
        Inl e \<Rightarrow> Inl e
      | Inr bits \<Rightarrow>
          Inr \<lparr>match_m = replicate kNumLetters kUnknownLetter,
               wrong_m = replicate kNumLetters 0,
               in_answer_m = 0,
               answer_m = answer,
               answer_bits_m = bits\<rparr>)"

text \<open>One iteration of the loop of \<^verbatim>\<open>void addGuess(const Word &guess)\<close>, at position \<open>i\<close>.\<close>

definition addGuessAt :: "Word \<Rightarrow> nat \<Rightarrow> WorldleGame \<Rightarrow> error + WorldleGame" where
  "addGuessAt guess i game =
     (let answer_letter = answer_m game ! i;
          guess_letter = guess ! i
      in case letter_bit guess_letter of
           Inl e \<Rightarrow> Inl e
         | Inr guess_letter_bit \<Rightarrow>
             (let guess_in_answer = guess_letter_bit AND answer_bits_m game;
                  game1 = game\<lparr>in_answer_m := in_answer_m game OR guess_in_answer\<rparr>
              in if guess_letter = answer_letter
                 then Inr (game1\<lparr>match_m := (match_m game1)[i := answer_letter]\<rparr>)
                 else if guess_in_answer \<noteq> 0
                 then Inr (game1\<lparr>wrong_m := (wrong_m game1)[i := wrong_m game1 ! i OR guess_letter_bit]\<rparr>)
                 else Inr (game1\<lparr>wrong_m :=
                             map (\<lambda>letter_field. letter_field OR guess_letter_bit) (wrong_m game1)\<rparr>)))"

definition addGuess :: "Word \<Rightarrow> WorldleGame \<Rightarrow> error + WorldleGame" where
  "addGuess guess game = forEach [0..<kNumLetters] (addGuessAt guess) game"

definition addGuesses :: "WordList \<Rightarrow> WorldleGame \<Rightarrow> error + WorldleGame" where
  "addGuesses guesses game = forEach guesses addGuess game"

text \<open>
  \<^verbatim>\<open>WorldleGame getCopyWithGuess(const Word& guess) const\<close> (the source spells the type of
  \<open>ret\<close> \<open>WordleGame\<close>; it is read as the class it is in). As a value: the copy, with the
  guess added.
\<close>

definition getCopyWithGuess :: "WorldleGame \<Rightarrow> Word \<Rightarrow> error + WorldleGame" where
  "getCopyWithGuess this guess = (let ret = this in addGuess guess ret)"

text \<open>
  The same member functions on objects held in a store, one \<open>WorldleGame\<close> per address:
  \<open>addGuess\<close> writes the object it is called on, and \<open>getCopyWithGuess\<close> builds its local
  \<open>ret\<close> in the caller's return slot (\<^verbatim>\<open>WordleGame ret = *this; ret.addGuess(guess); return ret;\<close>),
  a copy of every member array, and writes only there.
\<close>

type_synonym addr = nat
type_synonym store = "addr \<Rightarrow> WorldleGame"

definition addGuess_obj :: "addr \<Rightarrow> Word \<Rightarrow> store \<Rightarrow> error + store" where
  "addGuess_obj this guess h =
     (case addGuess guess (h this) of Inl e \<Rightarrow> Inl e | Inr game' \<Rightarrow> Inr (h(this := game')))"

definition getCopyWithGuess_obj :: "addr \<Rightarrow> addr \<Rightarrow> Word \<Rightarrow> store \<Rightarrow> error + store" where
  "getCopyWithGuess_obj this ret guess h = addGuess_obj ret guess (h(ret := h this))"

subsection \<open>The update of \<open>applyGuess\<close> as the specification words it\<close>

text \<open>
  Section 4.3 of the specification, case by case at position \<open>i\<close>: an exact match sets
  \<open>positionMatch[i]\<close>; a letter whose bit is in \<open>answerPresence\<close> is added to
  \<open>positionForbidden[i]\<close> only and to \<open>requiredPresent\<close>; a letter absent from the answer
  is added to \<open>positionForbidden[j]\<close> for every \<open>j\<close> and not to \<open>requiredPresent\<close>.
  Nothing else changes.
\<close>

definition specApplyAt :: "Word \<Rightarrow> nat \<Rightarrow> WorldleGame \<Rightarrow> WorldleGame" where
  "specApplyAt guess i game =
     (if guess ! i = answer_m game ! i
      then game\<lparr>match_m := (match_m game)[i := guess ! i]\<rparr>
      else if bit (answer_bits_m game) (nat (guess ! i))
      then game\<lparr>wrong_m := (wrong_m game)[i := wrong_m game ! i OR push_bit (nat (guess ! i)) 1],
                in_answer_m := in_answer_m game OR push_bit (nat (guess ! i)) 1\<rparr>
      else game\<lparr>wrong_m := map (\<lambda>f. f OR push_bit (nat (guess ! i)) 1) (wrong_m game)\<rparr>)"

definition specApplyGuess :: "Word \<Rightarrow> WorldleGame \<Rightarrow> WorldleGame" where
  "specApplyGuess guess game = fold (specApplyAt guess) [0..<kNumLetters] game"

subsection \<open>fromString\<close>

text \<open>
  \<^verbatim>\<open>word[i] = str[i] - 'a'\<close>: both operands are promoted to \<open>int\<close>. Whether plain
  \<open>char\<close> is signed is the platform's choice, so it is a parameter.
\<close>

definition char_int :: "bool \<Rightarrow> char \<Rightarrow> int" where
  "char_int char_signed c =
     (let n = int (of_char c) in if char_signed \<and> 128 \<le> n then n - 256 else n)"

definition fromString :: "bool \<Rightarrow> string \<Rightarrow> error + Word" where
  "fromString char_signed str =
     (if \<not> length str = kNumLetters then Inl AssertionFailed
      else Inr (map (\<lambda>i. char_int char_signed (str ! i) - char_int char_signed CHR ''a'')
                  [0..<kNumLetters]))"

text \<open>The letter codes of the alphabet \<open>'a'\<close> to \<open>'z'\<close>.\<close>

definition alphabet_size :: int where
  "alphabet_size = 26"

definition validLetter :: "Letter \<Rightarrow> bool" where
  "validLetter l \<longleftrightarrow> 0 \<le> l \<and> l < alphabet_size"

subsection \<open>runGreedyTrial\<close>

definition first_guess :: Word where
  "first_guess = [17, 14, 0, 19, 4]"

text \<open>\<open>std::count_if\<close> with a predicate that may stop the run.\<close>

fun count_if :: "('a \<Rightarrow> error + bool) \<Rightarrow> 'a list \<Rightarrow> error + int" where
  "count_if p [] = Inr 0"
| "count_if p (x # xs) =
     (case p x of
        Inl e \<Rightarrow> Inl e
      | Inr b \<Rightarrow> (case count_if p xs of Inl e \<Rightarrow> Inl e | Inr n \<Rightarrow> Inr ((if b then 1 else 0) + n)))"

text \<open>The loops that \<open>push_back\<close> the words a game matches, in order.\<close>

fun keepMatching :: "WorldleGame \<Rightarrow> WordList \<Rightarrow> error + WordList" where
  "keepMatching game [] = Inr []"
| "keepMatching game (w # ws) =
     (case matches game w of
        Inl e \<Rightarrow> Inl e
      | Inr b \<Rightarrow> (case keepMatching game ws of Inl e \<Rightarrow> Inl e | Inr vs \<Rightarrow> Inr (if b then w # vs else vs)))"

text \<open>
  The body of the loop over \<open>i\<close>: \<^verbatim>\<open>scores[i] += std::count_if(...)\<close>. The right operand is
  evaluated first; \<open>operator[]\<close> outside the vector is undefined behaviour.
\<close>

definition scoreEntry :: "WordList \<Rightarrow> WordList \<Rightarrow> WorldleGame \<Rightarrow> nat \<Rightarrow> int list \<Rightarrow> error + int list" where
  "scoreEntry entries valid_answers game_for_answer i scores =
     (case getCopyWithGuess game_for_answer (entries ! i) of
        Inl e \<Rightarrow> Inl e
      | Inr game_with_guess \<Rightarrow>
          (case count_if (matches game_with_guess) valid_answers of
             Inl e \<Rightarrow> Inl e
           | Inr n \<Rightarrow> if i < length scores then Inr (scores[i := scores ! i + n])
                      else Inl OutOfBounds))"

text \<open>The body of the loop over \<open>valid_answer\<close>.\<close>

definition scoreAnswer :: "WordList \<Rightarrow> WordList \<Rightarrow> WordList \<Rightarrow> Word \<Rightarrow> int list \<Rightarrow> error + int list" where
  "scoreAnswer entries best_guesses valid_answers valid_answer scores =
     (case newWorldleGame valid_answer of
        Inl e \<Rightarrow> Inl e
      | Inr game0 \<Rightarrow>
          (case addGuesses best_guesses game0 of
             Inl e \<Rightarrow> Inl e
           | Inr game_for_answer \<Rightarrow>
               forEach [0..<length entries] (scoreEntry entries valid_answers game_for_answer) scores))"

definition scoreRound :: "WordList \<Rightarrow> WordList \<Rightarrow> WordList \<Rightarrow> int list \<Rightarrow> error + int list" where
  "scoreRound entries best_guesses valid_answers scores =
     forEach valid_answers (scoreAnswer entries best_guesses valid_answers) scores"

text \<open>
  \<open>std::min_element\<close> followed by \<open>std::distance\<close> from \<open>cbegin()\<close>: the index of the first
  smallest element; on an empty vector the iterator returned is \<open>cend()\<close>, which is
  \<open>cbegin()\<close>, at distance 0.
\<close>

fun min_scan :: "int list \<Rightarrow> nat \<Rightarrow> int \<Rightarrow> nat \<Rightarrow> nat" where
  "min_scan [] smallest v i = smallest"
| "min_scan (x # xs) smallest v i =
     (if x < v then min_scan xs i x (Suc i) else min_scan xs smallest v (Suc i))"

definition min_element :: "int list \<Rightarrow> nat" where
  "min_element scores = (case scores of [] \<Rightarrow> 0 | x # xs \<Rightarrow> min_scan xs 0 x 1)"

text \<open>
  The variables the \<open>while\<close> loop reads and writes. \<open>next_valid_answers\<close> is empty at the
  head of every iteration (it is cleared at the end of the body), so it is local to the
  body. A score is a sum of at most as many counts as there are candidate answers, each
  at most their number, and \<open>trial_count\<close> grows by one per round: neither comes near the
  bounds of \<open>int64_t\<close> and \<open>int\<close>, so both are integers. What \<open>debug\<close> prints is left out.
\<close>

record Trial =
  trial_game :: WorldleGame
  valid_answers :: WordList
  best_guesses :: WordList
  scores :: "int list"
  trial_count :: int

definition greedyRound :: "WordList \<Rightarrow> Trial \<Rightarrow> error + Trial" where
  "greedyRound entries st =
     (case scoreRound entries (best_guesses st) (valid_answers st) (scores st) of
        Inl e \<Rightarrow> Inl e
      | Inr scores' \<Rightarrow>
          (let idx = min_element scores'
           in if \<not> idx < length entries then Inl OutOfBounds
              else (let best_guess = entries ! idx
                    in case addGuess best_guess (trial_game st) of
                         Inl e \<Rightarrow> Inl e
                       | Inr trial_game' \<Rightarrow>
                           (case keepMatching trial_game' (valid_answers st) of
                              Inl e \<Rightarrow> Inl e
                            | Inr next_valid_answers \<Rightarrow>
                                Inr \<lparr>trial_game = trial_game',
                                     valid_answers = next_valid_answers,
                                     best_guesses = best_guesses st @ [best_guess],
                                     scores = map (\<lambda>_. 0) scores',
                                     trial_count = trial_count st + 1\<rparr>))))"

text \<open>The \<open>while\<close> loop. It need not end, so not returning is the value \<open>None\<close>.\<close>

partial_function (option) greedyWhile :: "WordList \<Rightarrow> Trial \<Rightarrow> (error + Trial) option" where
  "greedyWhile entries st =
     (if 1 < length (valid_answers st)
      then (case greedyRound entries st of
              Inl e \<Rightarrow> Some (Inl e)
            | Inr st' \<Rightarrow> greedyWhile entries st')
      else Some (Inr st))"

text \<open>
  What precedes the loop: the assertion on \<open>answer_idx\<close>, the trial game with the first
  guess, \<^verbatim>\<open>entries.cbegin() + num_answers\<close> (undefined past the end) and the answers the
  game matches. \<open>scores\<close> is declared and never given a size.
\<close>

definition seedTrial :: "WordList \<Rightarrow> nat \<Rightarrow> nat \<Rightarrow> error + Trial" where
  "seedTrial entries answer_idx num_answers =
     (if \<not> answer_idx < length entries then Inl AssertionFailed
      else (let answer = entries ! answer_idx
            in case newWorldleGame answer of
                 Inl e \<Rightarrow> Inl e
               | Inr game0 \<Rightarrow>
                   (case addGuess first_guess game0 of
                      Inl e \<Rightarrow> Inl e
                    | Inr game1 \<Rightarrow>
                        if \<not> num_answers \<le> length entries then Inl OutOfBounds
                        else (case keepMatching game1 (take num_answers entries) of
                                Inl e \<Rightarrow> Inl e
                              | Inr valid \<Rightarrow>
                                  Inr \<lparr>trial_game = game1,
                                       valid_answers = valid,
                                       best_guesses = [first_guess],
                                       scores = [],
                                       trial_count = 1\<rparr>))))"

text \<open>What follows the loop: the two assertions, then \<open>return trial_count\<close>.\<close>

definition finishTrial :: "Word \<Rightarrow> Trial \<Rightarrow> error + int" where
  "finishTrial answer st =
     (if \<not> length (valid_answers st) = 1 then Inl AssertionFailed
      else if \<not> hd (valid_answers st) = answer then Inl AssertionFailed
      else Inr (trial_count st))"

definition runGreedyTrial :: "WordList \<Rightarrow> nat \<Rightarrow> nat \<Rightarrow> (error + int) option" where
  "runGreedyTrial entries answer_idx num_answers =
     (case seedTrial entries answer_idx num_answers of
        Inl e \<Rightarrow> Some (Inl e)
      | Inr st \<Rightarrow>
          (case greedyWhile entries st of
             None \<Rightarrow> None
           | Some (Inl e) \<Rightarrow> Some (Inl e)
           | Some (Inr st') \<Rightarrow> Some (finishTrial (entries ! answer_idx) st')))"

section \<open>Definitions used by the statements\<close>

text \<open>
  What holds of every game the constructor builds and \<open>addGuess\<close> updates: the arrays have
  their length, \<open>answer_bits_\<close> holds exactly the answer's letters, a position's match is
  unknown or the answer's letter, no position forbids the answer's own letter there, and
  every letter of \<open>in_answer_\<close> is a letter of the answer.
\<close>

definition gameInv :: "WorldleGame \<Rightarrow> bool" where
  "gameInv game \<longleftrightarrow>
     wfGame game \<and>
     (\<forall>i<kNumLetters. shiftDefined (answer_m game ! i)) \<and>
     (\<forall>n. bit (answer_bits_m game) n \<longleftrightarrow> (\<exists>i<kNumLetters. n = nat (answer_m game ! i))) \<and>
     (\<forall>i<kNumLetters. match_m game ! i = kUnknownLetter \<or> match_m game ! i = answer_m game ! i) \<and>
     (\<forall>i<kNumLetters. \<not> bit (wrong_m game ! i) (nat (answer_m game ! i))) \<and>
     (\<forall>n. bit (in_answer_m game) n \<longrightarrow> bit (answer_bits_m game) n)"

text \<open>Words and games for the examples: "about", "atoll", "allot", and fresh games.\<close>

definition about :: Word where
  "about = [0, 1, 14, 20, 19]"

definition atoll :: Word where
  "atoll = [0, 19, 14, 11, 11]"

definition allot :: Word where
  "allot = [0, 11, 11, 14, 19]"

definition about_game :: WorldleGame where
  "about_game = \<lparr>match_m = [- 1, - 1, - 1, - 1, - 1], wrong_m = [0, 0, 0, 0, 0], in_answer_m = 0,
                  answer_m = [0, 1, 14, 20, 19], answer_bits_m = 1589251\<rparr>"

definition roate_game :: WorldleGame where
  "roate_game = \<lparr>match_m = [- 1, - 1, - 1, - 1, - 1], wrong_m = [0, 0, 0, 0, 0], in_answer_m = 0,
                  answer_m = [17, 14, 0, 19, 4], answer_bits_m = 671761\<rparr>"

text \<open>
  The score of a guess as section 4.4 of the specification words it: the number of answers
  of the feasible set that the trial game, branched with the guess, still matches.
\<close>

definition specCountMatches :: "WorldleGame \<Rightarrow> WordList \<Rightarrow> Word \<Rightarrow> error + int" where
  "specCountMatches trial feasible g =
     (case getCopyWithGuess trial g of
        Inl e \<Rightarrow> Inl e
      | Inr branch \<Rightarrow> count_if (matches branch) feasible)"

text \<open>
  What one pass of the loop over \<open>i\<close> adds to a score, read off the source: the game of
  the word \<open>v\<close> taken as the answer, the guesses added, and the number of candidates it
  matches.
\<close>

definition leftFor :: "WordList \<Rightarrow> WordList \<Rightarrow> Word \<Rightarrow> error + int" where
  "leftFor guesses candidates v =
     (case newWorldleGame v of
        Inl e \<Rightarrow> Inl e
      | Inr game0 \<Rightarrow>
          (case addGuesses guesses game0 of
             Inl e \<Rightarrow> Inl e
           | Inr game \<Rightarrow> count_if (matches game) candidates))"

text \<open>
  A dictionary of four words that share no letter with the first guess; the state of the
  trial for its first word when the loop is reached (\<open>small_seeded\<close>); and that state
  with a score of 0 for each word in place of the empty vector (\<open>small_trial\<close>), which
  no run builds.
\<close>

definition bbbbb :: Word where
  "bbbbb = [1, 1, 1, 1, 1]"

definition bcccc :: Word where
  "bcccc = [1, 2, 2, 2, 2]"

definition ccccc :: Word where
  "ccccc = [2, 2, 2, 2, 2]"

definition ddddd :: Word where
  "ddddd = [3, 3, 3, 3, 3]"

definition small_dict :: WordList where
  "small_dict = [bbbbb, bcccc, ccccc, ddddd]"

definition small_trial :: Trial where
  "small_trial =
     \<lparr>trial_game = \<lparr>match_m = [- 1, - 1, - 1, - 1, - 1],
                     wrong_m = [671761, 671761, 671761, 671761, 671761],
                     in_answer_m = 0, answer_m = [1, 1, 1, 1, 1], answer_bits_m = 2\<rparr>,
      valid_answers = [[1, 1, 1, 1, 1], [1, 2, 2, 2, 2], [2, 2, 2, 2, 2], [3, 3, 3, 3, 3]],
      best_guesses = [[17, 14, 0, 19, 4]],
      scores = [0, 0, 0, 0],
      trial_count = 1\<rparr>"

definition small_seeded :: Trial where
  "small_seeded = small_trial\<lparr>scores := []\<rparr>"

section \<open>Letter fields\<close>

lemma bit_letter: "shiftDefined l \<Longrightarrow> bit (2 ^ nat l :: 32 word) n \<longleftrightarrow> n = nat l"
  by (auto simp: shiftDefined_def bit_exp_iff)

lemma letter_and_nonzero:
  assumes "shiftDefined l"
  shows "((2 ^ nat l :: 32 word) AND x \<noteq> 0) \<longleftrightarrow> bit x (nat l)"
proof
  assume nz: "(2 ^ nat l :: 32 word) AND x \<noteq> 0"
  show "bit x (nat l)"
  proof (rule ccontr)
    assume "\<not> bit x (nat l)"
    then have "(2 ^ nat l :: 32 word) AND x = 0"
      using assms by (intro bit_eqI) (auto simp: bit_and_iff bit_letter)
    with nz show False by simp
  qed
next
  assume b: "bit x (nat l)"
  show "(2 ^ nat l :: 32 word) AND x \<noteq> 0"
  proof
    assume "(2 ^ nat l :: 32 word) AND x = 0"
    then have "bit ((2 ^ nat l :: 32 word) AND x) (nat l) = bit (0 :: 32 word) (nat l)"
      by simp
    then show False using b assms by (simp add: bit_and_iff bit_letter)
  qed
qed

lemma letter_and_zero:
  "shiftDefined l \<Longrightarrow> ((2 ^ nat l :: 32 word) AND x = 0) \<longleftrightarrow> \<not> bit x (nat l)"
  using letter_and_nonzero [of l x] by blast

lemma letter_bit_Inr: "letter_bit l = Inr b \<longleftrightarrow> shiftDefined l \<and> b = push_bit (nat l) 1"
  by (auto simp: letter_bit_def)

lemma letter_bit_Inl: "letter_bit l = Inl e \<longleftrightarrow> \<not> shiftDefined l \<and> e = UndefinedShift"
  by (auto simp: letter_bit_def)

section \<open>One step of addGuess\<close>

lemma addGuessAt_Inr:
  assumes "addGuessAt guess i game = Inr game'"
  shows "shiftDefined (guess ! i)"
    and "answer_m game' = answer_m game"
    and "answer_bits_m game' = answer_bits_m game"
    and "length (match_m game') = length (match_m game)"
    and "length (wrong_m game') = length (wrong_m game)"
  using assms
  by (auto simp: addGuessAt_def Let_def letter_bit_Inr split: sum.splits if_splits)

lemma addGuessAt_match:
  assumes "addGuessAt guess i game = Inr game'" "i < length (match_m game)"
  shows "match_m game' ! j =
     (if j = i \<and> guess ! i = answer_m game ! i then answer_m game ! i else match_m game ! j)"
  using assms
  by (auto simp: addGuessAt_def Let_def letter_bit_Inr nth_list_update split: sum.splits if_splits)

lemma addGuessAt_in_answer:
  assumes "addGuessAt guess i game = Inr game'"
  shows "bit (in_answer_m game') n \<longleftrightarrow>
     bit (in_answer_m game) n \<or> (n = nat (guess ! i) \<and> bit (answer_bits_m game) n)"
  using assms
  by (auto simp: addGuessAt_def Let_def letter_bit_Inr bit_or_iff bit_and_iff bit_letter
      letter_and_zero split: sum.splits if_splits)

lemma addGuessAt_wrong:
  assumes "addGuessAt guess i game = Inr game'" "i < length (wrong_m game)" "j < length (wrong_m game)"
  shows "bit (wrong_m game' ! j) n \<longleftrightarrow>
     bit (wrong_m game ! j) n \<or>
     (n = nat (guess ! i) \<and> guess ! i \<noteq> answer_m game ! i \<and>
      (bit (answer_bits_m game) (nat (guess ! i)) \<longrightarrow> i = j))"
  using assms
  by (auto simp: addGuessAt_def Let_def letter_bit_Inr bit_or_iff bit_letter letter_and_zero
      nth_list_update split: sum.splits if_splits)

lemma addGuessAt_total:
  "shiftDefined (guess ! i) \<Longrightarrow> \<exists>game'. addGuessAt guess i game = Inr game'"
  by (auto simp: addGuessAt_def Let_def letter_bit_def)

lemma addGuessAt_Inl:
  "addGuessAt guess i game = Inl e \<Longrightarrow> e = UndefinedShift \<and> \<not> shiftDefined (guess ! i)"
  by (auto simp: addGuessAt_def Let_def letter_bit_def split: if_splits)

section \<open>The loop of addGuess\<close>

lemma forEach_invariant:
  assumes "forEach xs body s = Inr s'" "P s"
    and "\<And>x t t'. x \<in> set xs \<Longrightarrow> P t \<Longrightarrow> body x t = Inr t' \<Longrightarrow> P t'"
  shows "P s'"
  using assms
proof (induction xs arbitrary: s)
  case Nil
  then show ?case by simp
next
  case (Cons x xs)
  then obtain s1 where s: "body x s = Inr s1" and r: "forEach xs body s1 = Inr s'"
    by (auto split: sum.splits)
  have "P s1" using Cons.prems(2,3) s by auto
  then show ?case using Cons.IH [OF r] Cons.prems(3) by auto
qed

lemma forEach_append:
  "forEach (xs @ ys) body s = (case forEach xs body s of Inl e \<Rightarrow> Inl e | Inr s' \<Rightarrow> forEach ys body s')"
  by (induction xs arbitrary: s) (auto split: sum.splits)

lemma forEach_total:
  assumes "P s" and "\<And>x t. x \<in> set xs \<Longrightarrow> P t \<Longrightarrow> \<exists>t'. body x t = Inr t' \<and> P t'"
  shows "\<exists>s'. forEach xs body s = Inr s' \<and> P s'"
  using assms
proof (induction xs arbitrary: s)
  case Nil
  then show ?case by simp
next
  case (Cons x xs)
  then obtain s1 where s: "body x s = Inr s1" "P s1" by fastforce
  from Cons.IH [of s1] s Cons.prems(2) obtain s' where "forEach xs body s1 = Inr s'" "P s'"
    by auto
  with s show ?case by simp
qed

lemma addGuessLoop_frame:
  "forEach is (addGuessAt guess) game = Inr game' \<Longrightarrow>
     answer_m game' = answer_m game \<and> answer_bits_m game' = answer_bits_m game \<and>
     length (match_m game') = length (match_m game) \<and>
     length (wrong_m game') = length (wrong_m game)"
proof (induction "is" arbitrary: game)
  case Nil
  then show ?case by simp
next
  case (Cons i "is")
  then obtain g1 where s: "addGuessAt guess i game = Inr g1"
    and r: "forEach is (addGuessAt guess) g1 = Inr game'"
    by (auto split: sum.splits)
  from Cons.IH [OF r] addGuessAt_Inr [OF s] show ?case by simp
qed

lemma addGuessLoop_match:
  "forEach is (addGuessAt guess) game = Inr game' \<Longrightarrow> \<forall>i\<in>set is. i < length (match_m game) \<Longrightarrow>
     match_m game' ! j =
       (if j \<in> set is \<and> guess ! j = answer_m game ! j then answer_m game ! j else match_m game ! j)"
proof (induction "is" arbitrary: game)
  case Nil
  then show ?case by simp
next
  case (Cons i "is")
  then obtain g1 where s: "addGuessAt guess i game = Inr g1"
    and r: "forEach is (addGuessAt guess) g1 = Inr game'"
    by (auto split: sum.splits)
  have i: "i < length (match_m game)" using Cons.prems by simp
  have b: "\<forall>i\<in>set is. i < length (match_m g1)"
    using Cons.prems addGuessAt_Inr [OF s] by simp
  show ?case
    using Cons.IH [OF r b] addGuessAt_match [OF s i, of j] addGuessAt_Inr [OF s]
    by auto
qed

lemma addGuessLoop_in_answer:
  "forEach is (addGuessAt guess) game = Inr game' \<Longrightarrow>
     bit (in_answer_m game') n \<longleftrightarrow>
       bit (in_answer_m game) n \<or> (\<exists>i\<in>set is. n = nat (guess ! i) \<and> bit (answer_bits_m game) n)"
proof (induction "is" arbitrary: game)
  case Nil
  then show ?case by simp
next
  case (Cons i "is")
  then obtain g1 where s: "addGuessAt guess i game = Inr g1"
    and r: "forEach is (addGuessAt guess) g1 = Inr game'"
    by (auto split: sum.splits)
  show ?case
    using Cons.IH [OF r] addGuessAt_in_answer [OF s, of n] addGuessAt_Inr [OF s]
    by auto
qed

lemma addGuessLoop_wrong:
  "forEach is (addGuessAt guess) game = Inr game' \<Longrightarrow> \<forall>i\<in>set is. i < length (wrong_m game) \<Longrightarrow>
   j < length (wrong_m game) \<Longrightarrow>
     bit (wrong_m game' ! j) n \<longleftrightarrow>
       bit (wrong_m game ! j) n \<or>
       (\<exists>i\<in>set is. n = nat (guess ! i) \<and> guess ! i \<noteq> answer_m game ! i \<and>
          (bit (answer_bits_m game) (nat (guess ! i)) \<longrightarrow> i = j))"
proof (induction "is" arbitrary: game)
  case Nil
  then show ?case by simp
next
  case (Cons i "is")
  then obtain g1 where s: "addGuessAt guess i game = Inr g1"
    and r: "forEach is (addGuessAt guess) g1 = Inr game'"
    by (auto split: sum.splits)
  have i: "i < length (wrong_m game)" using Cons.prems by simp
  have j: "j < length (wrong_m game)" using Cons.prems by simp
  have b: "\<forall>i\<in>set is. i < length (wrong_m g1)" and j1: "j < length (wrong_m g1)"
    using Cons.prems addGuessAt_Inr [OF s] by simp_all
  show ?case
    using Cons.IH [OF r b j1] addGuessAt_wrong [OF s i j, of n] addGuessAt_Inr [OF s]
    by auto
qed

lemma addGuessLoop_total:
  "\<forall>i\<in>set is. shiftDefined (guess ! i) \<Longrightarrow> \<exists>game'. forEach is (addGuessAt guess) game = Inr game'"
proof (induction "is" arbitrary: game)
  case Nil
  then show ?case by simp
next
  case (Cons i "is")
  then obtain g1 where s: "addGuessAt guess i game = Inr g1"
    using addGuessAt_total [of guess i game] by auto
  with Cons show ?case by simp
qed

lemma addGuessLoop_Inl:
  "forEach is (addGuessAt guess) game = Inl e \<Longrightarrow>
     e = UndefinedShift \<and> (\<exists>i\<in>set is. \<not> shiftDefined (guess ! i))"
proof (induction "is" arbitrary: game)
  case Nil
  then show ?case by simp
next
  case (Cons i "is")
  then show ?case
    by (auto split: sum.splits dest: addGuessAt_Inl)
qed

lemma okWord_nth: "okWord w \<Longrightarrow> i < kNumLetters \<Longrightarrow> shiftDefined (w ! i)"
  by (simp add: okWord_def list_all_length)

lemma okWord_iff: "okWord w \<longleftrightarrow> length w = kNumLetters \<and> (\<forall>i<kNumLetters. shiftDefined (w ! i))"
  by (auto simp: okWord_def list_all_length)

lemma addGuess_total: "okWord guess \<Longrightarrow> \<exists>game'. addGuess guess game = Inr game'"
  unfolding addGuess_def by (rule addGuessLoop_total) (simp add: okWord_nth)

lemma addGuess_Inl: "addGuess guess game = Inl e \<Longrightarrow> e = UndefinedShift \<and> (\<exists>i<kNumLetters. \<not> shiftDefined (guess ! i))"
  unfolding addGuess_def by (drule addGuessLoop_Inl) auto

lemma addGuess_frame:
  "addGuess guess game = Inr game' \<Longrightarrow>
     answer_m game' = answer_m game \<and> answer_bits_m game' = answer_bits_m game \<and>
     length (match_m game') = length (match_m game) \<and>
     length (wrong_m game') = length (wrong_m game)"
  unfolding addGuess_def by (rule addGuessLoop_frame)

lemma addGuess_wf: "addGuess guess game = Inr game' \<Longrightarrow> wfGame game \<Longrightarrow> wfGame game'"
  by (drule addGuess_frame) (simp add: wfGame_def wfClues_def)

lemma addGuess_shiftDefined:
  "addGuess guess game = Inr game' \<Longrightarrow> i < kNumLetters \<Longrightarrow> shiftDefined (guess ! i)"
proof (rule ccontr)
  assume a: "addGuess guess game = Inr game'" and i: "i < kNumLetters" and n: "\<not> shiftDefined (guess ! i)"
  have "\<And>is game. i \<in> set is \<Longrightarrow> \<exists>e. forEach is (addGuessAt guess) game = Inl e"
  proof -
    fix "is" :: "nat list" and game :: WorldleGame
    show "i \<in> set is \<Longrightarrow> \<exists>e. forEach is (addGuessAt guess) game = Inl e"
    proof (induction "is" arbitrary: game)
      case Nil
      then show ?case by simp
    next
      case (Cons k ks)
      show ?case
      proof (cases "addGuessAt guess k game")
        case (Inl e)
        then show ?thesis by simp
      next
        case (Inr g1)
        then have "k \<noteq> i" using n addGuessAt_Inr(1) by blast
        with Cons Inr show ?thesis by simp
      qed
    qed
  qed
  from this [of "[0..<kNumLetters]" game] i a show False
    by (simp add: addGuess_def)
qed

lemma addGuess_match:
  assumes "addGuess guess game = Inr game'" "wfGame game" "j < kNumLetters"
  shows "match_m game' ! j = (if guess ! j = answer_m game ! j then answer_m game ! j else match_m game ! j)"
  using addGuessLoop_match [of "[0..<kNumLetters]" guess game game' j] assms
  by (simp add: addGuess_def wfGame_def wfClues_def)

lemma addGuess_in_answer:
  assumes "addGuess guess game = Inr game'"
  shows "bit (in_answer_m game') n \<longleftrightarrow>
     bit (in_answer_m game) n \<or> (\<exists>i<kNumLetters. n = nat (guess ! i) \<and> bit (answer_bits_m game) n)"
  using addGuessLoop_in_answer [of "[0..<kNumLetters]" guess game game' n] assms
  by (auto simp add: addGuess_def)

lemma addGuess_wrong:
  assumes "addGuess guess game = Inr game'" "wfGame game" "j < kNumLetters"
  shows "bit (wrong_m game' ! j) n \<longleftrightarrow>
       bit (wrong_m game ! j) n \<or>
       (\<exists>i<kNumLetters. n = nat (guess ! i) \<and> guess ! i \<noteq> answer_m game ! i \<and>
          (bit (answer_bits_m game) (nat (guess ! i)) \<longrightarrow> i = j))"
  using addGuessLoop_wrong [of "[0..<kNumLetters]" guess game game' j n] assms
  by (auto simp add: addGuess_def wfGame_def wfClues_def)

lemma addGuess_twice:
  assumes wf: "wfGame game" and a: "addGuess guess game = Inr game'"
  shows "addGuess guess game' = Inr game'"
proof -
  have sd: "\<forall>i<kNumLetters. shiftDefined (guess ! i)"
    using addGuess_shiftDefined [OF a] by blast
  then obtain game'' where b: "addGuess guess game' = Inr game''"
    using addGuessLoop_total [of "[0..<kNumLetters]" guess game'] by (auto simp: addGuess_def)
  have wf': "wfGame game'" using addGuess_wf [OF a wf] .
  have fr: "answer_m game' = answer_m game" "answer_bits_m game' = answer_bits_m game"
    using addGuess_frame [OF a] by simp_all
  have fr2: "answer_m game'' = answer_m game'" "answer_bits_m game'' = answer_bits_m game'"
    "length (match_m game'') = length (match_m game')" "length (wrong_m game'') = length (wrong_m game')"
    using addGuess_frame [OF b] by simp_all
  have len: "length (match_m game') = kNumLetters" "length (wrong_m game') = kNumLetters"
    using wf' by (simp_all add: wfGame_def wfClues_def)
  have m: "match_m game'' = match_m game'"
  proof (rule nth_equalityI)
    show "length (match_m game'') = length (match_m game')" by (rule fr2)
  next
    fix j assume "j < length (match_m game'')"
    then have j: "j < kNumLetters" using fr2 len by simp
    show "match_m game'' ! j = match_m game' ! j"
      using addGuess_match [OF b wf' j] addGuess_match [OF a wf j] fr by simp
  qed
  have w: "wrong_m game'' = wrong_m game'"
  proof (rule nth_equalityI)
    show "length (wrong_m game'') = length (wrong_m game')" by (rule fr2)
  next
    fix j assume "j < length (wrong_m game'')"
    then have j: "j < kNumLetters" using fr2 len by simp
    show "wrong_m game'' ! j = wrong_m game' ! j"
      by (rule bit_eqI) (use addGuess_wrong [OF b wf' j] addGuess_wrong [OF a wf j] fr in auto)
  qed
  have i: "in_answer_m game'' = in_answer_m game'"
    by (rule bit_eqI) (use addGuess_in_answer [OF b] addGuess_in_answer [OF a] fr in auto)
  have mo: "WorldleGame.more game'' = WorldleGame.more game'"
    by simp
  have "game'' = game'"
    using m w i fr2(1,2) by (intro WorldleGame.equality) simp_all
  with b show ?thesis by simp
qed

section \<open>What matches computes\<close>

lemma subset_bits: "((x::32 word) AND y) = x \<longleftrightarrow> (\<forall>n. bit x n \<longrightarrow> bit y n)"
proof
  assume e: "x AND y = x"
  show "\<forall>n. bit x n \<longrightarrow> bit y n"
  proof (intro allI impI)
    fix n assume "bit x n"
    then have "bit (x AND y) n" using e by simp
    then show "bit y n" by (simp add: bit_and_iff)
  qed
next
  assume "\<forall>n. bit x n \<longrightarrow> bit y n"
  then show "x AND y = x"
    by (intro bit_eqI) (auto simp: bit_and_iff)
qed

lemma matchesLoop_char:
  assumes "\<forall>i\<in>set is. shiftDefined (word ! i)"
  shows "matchesLoop c word is in_word =
     Inr (\<not> ((\<exists>i\<in>set is. match_m c ! i \<noteq> kUnknownLetter \<and> match_m c ! i \<noteq> word ! i) \<or>
              (\<exists>i\<in>set is. bit (wrong_m c ! i) (nat (word ! i))) \<or>
              \<not> (\<forall>n. bit (in_answer_m c) n \<longrightarrow> bit in_word n \<or> (\<exists>i\<in>set is. n = nat (word ! i)))))"
  using assms
proof (induction "is" arbitrary: in_word)
  case Nil
  then show ?case by (simp add: subset_bits)
next
  case (Cons i "is")
  have sd: "shiftDefined (word ! i)" and rest: "\<forall>i\<in>set is. shiftDefined (word ! i)"
    using Cons.prems by simp_all
  have lb: "letter_bit (word ! i) = Inr (2 ^ nat (word ! i))"
    using sd by (simp add: letter_bit_def)
  note IH = Cons.IH [OF rest, of "in_word OR 2 ^ nat (word ! i)"]
  show ?case
  proof (cases "match_m c ! i \<noteq> kUnknownLetter \<and> match_m c ! i \<noteq> word ! i")
    case True
    then show ?thesis by (auto simp: Let_def)
  next
    case nm: False
    show ?thesis
    proof (cases "bit (wrong_m c ! i) (nat (word ! i))")
      case True
      then show ?thesis using nm lb sd by (auto simp: Let_def letter_and_zero)
    next
      case False
      have "matchesLoop c word (i # is) in_word = matchesLoop c word is (in_word OR 2 ^ nat (word ! i))"
        using nm lb sd False by (auto simp: Let_def letter_and_zero)
      also note IH
      finally show ?thesis
        using nm False sd by (auto simp: bit_or_iff bit_letter)
    qed
  qed
qed

lemma matches_char:
  assumes "okWord w"
  shows "matches c w =
     Inr (\<not> ((\<exists>i<kNumLetters. match_m c ! i \<noteq> kUnknownLetter \<and> match_m c ! i \<noteq> w ! i) \<or>
              (\<exists>i<kNumLetters. bit (wrong_m c ! i) (nat (w ! i))) \<or>
              \<not> (\<forall>n. bit (in_answer_m c) n \<longrightarrow> (\<exists>i<kNumLetters. n = nat (w ! i)))))"
proof -
  have "\<forall>i\<in>set [0..<kNumLetters]. shiftDefined (w ! i)"
    using assms by (simp add: okWord_iff)
  from matchesLoop_char [OF this, of c 0] show ?thesis
    by (simp add: matches_def Ball_def Bex_def)
qed

section \<open>The games that can arise\<close>

lemma answerBits_Inr:
  "answerBits ls acc = Inr bits \<Longrightarrow>
     (\<forall>l\<in>set ls. shiftDefined l) \<and> (\<forall>n. bit bits n \<longleftrightarrow> bit acc n \<or> (\<exists>l\<in>set ls. n = nat l))"
proof (induction ls arbitrary: acc)
  case Nil
  then show ?case by simp
next
  case (Cons l ls)
  then have sd: "shiftDefined l" and r: "answerBits ls (acc OR 2 ^ nat l) = Inr bits"
    by (auto simp: letter_bit_Inr split: sum.splits)
  from Cons.IH [OF r] sd show ?case
    by (auto simp: bit_or_iff bit_letter)
qed

lemma answerBits_total: "\<forall>l\<in>set ls. shiftDefined l \<Longrightarrow> \<exists>bits. answerBits ls acc = Inr bits"
  by (induction ls arbitrary: acc) (auto simp: letter_bit_def)

lemma answerBits_Inl: "answerBits ls acc = Inl e \<Longrightarrow> e = UndefinedShift \<and> (\<exists>l\<in>set ls. \<not> shiftDefined l)"
  by (induction ls arbitrary: acc) (auto simp: letter_bit_def split: if_splits sum.splits)

lemma newWorldleGame_total: "okWord answer \<Longrightarrow> \<exists>game0. newWorldleGame answer = Inr game0"
  using answerBits_total [of answer 0]
  by (auto simp: newWorldleGame_def okWord_def list_all_iff)

lemma newWorldleGame_Inr:
  assumes "newWorldleGame answer = Inr game0"
  shows "match_m game0 = replicate kNumLetters kUnknownLetter"
    and "wrong_m game0 = replicate kNumLetters 0"
    and "in_answer_m game0 = 0"
    and "answer_m game0 = answer"
    and "\<forall>l\<in>set answer. shiftDefined l"
    and "\<forall>n. bit (answer_bits_m game0) n \<longleftrightarrow> (\<exists>l\<in>set answer. n = nat l)"
  using assms answerBits_Inr [of answer 0]
  by (auto simp: newWorldleGame_def split: sum.splits)

lemma newWorldleGame_inv:
  assumes "newWorldleGame answer = Inr game0" "wfWord answer"
  shows "gameInv game0"
proof -
  note n = newWorldleGame_Inr [OF assms(1)]
  have len: "length answer = kNumLetters" using assms(2) by (simp add: wfWord_def)
  have "(\<exists>l\<in>set answer. n = nat l) \<longleftrightarrow> (\<exists>i<kNumLetters. n = nat (answer ! i))" for n
    using len by (fastforce simp: in_set_conv_nth)
  moreover have "\<forall>i<kNumLetters. shiftDefined (answer ! i)"
    using n(5) len by simp
  ultimately show ?thesis
    using n len by (simp add: gameInv_def wfGame_def wfClues_def)
qed

lemma addGuess_inv:
  assumes a: "addGuess guess game = Inr game'" and inv: "gameInv game"
  shows "gameInv game'"
proof -
  have wf: "wfGame game" using inv by (simp add: gameInv_def)
  have wf': "wfGame game'" using addGuess_wf [OF a wf] .
  have fr: "answer_m game' = answer_m game" "answer_bits_m game' = answer_bits_m game"
    using addGuess_frame [OF a] by simp_all
  have sdg: "\<forall>i<kNumLetters. shiftDefined (guess ! i)"
    using addGuess_shiftDefined [OF a] by blast
  have sda: "\<forall>i<kNumLetters. shiftDefined (answer_m game ! i)"
    and ab: "\<forall>n. bit (answer_bits_m game) n \<longleftrightarrow> (\<exists>i<kNumLetters. n = nat (answer_m game ! i))"
    and m: "\<forall>i<kNumLetters. match_m game ! i = kUnknownLetter \<or> match_m game ! i = answer_m game ! i"
    and w: "\<forall>i<kNumLetters. \<not> bit (wrong_m game ! i) (nat (answer_m game ! i))"
    and ia: "\<forall>n. bit (in_answer_m game) n \<longrightarrow> bit (answer_bits_m game) n"
    using inv unfolding gameInv_def by blast+
  have m': "\<forall>i<kNumLetters. match_m game' ! i = kUnknownLetter \<or> match_m game' ! i = answer_m game' ! i"
    using m fr by (auto simp: addGuess_match [OF a wf])
  have w': "\<forall>j<kNumLetters. \<not> bit (wrong_m game' ! j) (nat (answer_m game' ! j))"
  proof (intro allI impI notI)
    fix j assume j: "j < kNumLetters" and b: "bit (wrong_m game' ! j) (nat (answer_m game' ! j))"
    from b obtain i where i: "i < kNumLetters" "nat (answer_m game ! j) = nat (guess ! i)"
      "guess ! i \<noteq> answer_m game ! i"
      "bit (answer_bits_m game) (nat (guess ! i)) \<longrightarrow> i = j"
      using addGuess_wrong [OF a wf j] w j fr by auto
    have "0 \<le> answer_m game ! j" "0 \<le> guess ! i"
      using i(1) j sda sdg by (simp_all add: shiftDefined_def)
    then have "answer_m game ! j = guess ! i"
      using i(2) by linarith
    moreover have "bit (answer_bits_m game) (nat (guess ! i))"
      using ab i(2) j by auto
    ultimately show False using i(3,4) by simp
  qed
  have ia': "\<forall>n. bit (in_answer_m game') n \<longrightarrow> bit (answer_bits_m game') n"
    using ia fr by (auto simp: addGuess_in_answer [OF a])
  show ?thesis
    using wf' sda ab m' w' ia' fr by (simp add: gameInv_def)
qed

lemma addGuesses_inv:
  "addGuesses guesses game = Inr game' \<Longrightarrow> gameInv game \<Longrightarrow> gameInv game'"
  unfolding addGuesses_def
  by (erule forEach_invariant) (auto intro: addGuess_inv)

lemma addGuesses_total:
  assumes "list_all okWord guesses"
  shows "\<exists>game'. addGuesses guesses game = Inr game'"
proof -
  have "\<exists>s'. forEach guesses addGuess game = Inr s' \<and> True"
    using assms by (intro forEach_total) (auto simp: list_all_iff addGuess_total)
  then show ?thesis by (simp add: addGuesses_def)
qed

lemma addGuesses_frame:
  "addGuesses guesses game = Inr game' \<Longrightarrow>
     answer_m game' = answer_m game \<and> answer_bits_m game' = answer_bits_m game"
  unfolding addGuesses_def
  by (erule forEach_invariant [where P = "\<lambda>t. answer_m t = answer_m game \<and> answer_bits_m t = answer_bits_m game"])
     (auto dest: addGuess_frame)

lemma inv_matches_answer:
  assumes "gameInv game"
  shows "matches game (answer_m game) = Inr True"
proof -
  have ok: "okWord (answer_m game)"
    using assms by (simp add: gameInv_def okWord_iff wfGame_def)
  show ?thesis
    using assms by (auto simp: matches_char [OF ok] gameInv_def)
qed

lemma reachable_matches_answer:
  assumes "newWorldleGame answer = Inr game0" "wfWord answer" "addGuesses guesses game0 = Inr game"
  shows "matches game answer = Inr True"
proof -
  have "gameInv game"
    using addGuesses_inv [OF assms(3) newWorldleGame_inv [OF assms(1,2)]] .
  moreover have "answer_m game = answer"
    using addGuesses_frame [OF assms(3)] newWorldleGame_Inr(4) [OF assms(1)] by simp
  ultimately show ?thesis using inv_matches_answer by metis
qed

lemma exact_match_required:
  assumes "gameInv game" "addGuess guess game = Inr game'" "i < kNumLetters"
    and "guess ! i = answer_m game ! i"
  shows "bit (in_answer_m game') (nat (guess ! i))"
proof -
  have "bit (answer_bits_m game) (nat (guess ! i))"
    using assms(1,3,4) unfolding gameInv_def by auto
  then show ?thesis
    using assms(3) by (auto simp: addGuess_in_answer [OF assms(2)])
qed

section \<open>The claims about Clues and WorldleGame\<close>

text \<open>
  Claim C1, as amended. For every game whose arrays have their length and every guess of
  \<open>kNumLetters\<close> letters that are valid shift counts, \<open>addGuess\<close> returns, leaves the answer
  and its bits alone, and changes the clues position by position: where the guess's letter
  equals the answer's, the match is set to it; a letter that differs from the answer's at
  its position is added to the forbidden letters of that position only when its bit is in
  \<open>answer_bits_\<close>, and of every position when it is not; and \<open>in_answer_\<close> gains the bit of
  every guess letter whose bit is in \<open>answer_bits_\<close>, the exactly matching ones included.
\<close>

theorem addGuess_cases:
  assumes "wfGame game" "okWord guess"
  shows "\<exists>game'. addGuess guess game = Inr game' \<and>
           answer_m game' = answer_m game \<and> answer_bits_m game' = answer_bits_m game \<and>
           length (match_m game') = kNumLetters \<and> length (wrong_m game') = kNumLetters \<and>
           (\<forall>i<kNumLetters. match_m game' ! i =
              (if guess ! i = answer_m game ! i then guess ! i else match_m game ! i)) \<and>
           (\<forall>j<kNumLetters. \<forall>n. bit (wrong_m game' ! j) n \<longleftrightarrow>
              bit (wrong_m game ! j) n \<or>
              (\<exists>i<kNumLetters. n = nat (guess ! i) \<and> guess ! i \<noteq> answer_m game ! i \<and>
                 (if bit (answer_bits_m game) (nat (guess ! i)) then j = i else True))) \<and>
           (\<forall>n. bit (in_answer_m game') n \<longleftrightarrow>
              bit (in_answer_m game) n \<or>
              (\<exists>i<kNumLetters. n = nat (guess ! i) \<and> bit (answer_bits_m game) (nat (guess ! i))))"
proof -
  obtain game' where g': "addGuess guess game = Inr game'"
    using addGuess_total [OF assms(2)] by blast
  note fr = addGuess_frame [OF g']
  have len: "length (match_m game') = kNumLetters" "length (wrong_m game') = kNumLetters"
    using fr assms(1) by (simp_all add: wfGame_def wfClues_def)
  have m: "\<forall>i<kNumLetters. match_m game' ! i =
              (if guess ! i = answer_m game ! i then guess ! i else match_m game ! i)"
    by (simp add: addGuess_match [OF g' assms(1)])
  have w: "\<forall>j<kNumLetters. \<forall>n. bit (wrong_m game' ! j) n \<longleftrightarrow>
              bit (wrong_m game ! j) n \<or>
              (\<exists>i<kNumLetters. n = nat (guess ! i) \<and> guess ! i \<noteq> answer_m game ! i \<and>
                 (if bit (answer_bits_m game) (nat (guess ! i)) then j = i else True))"
    by (auto simp: addGuess_wrong [OF g' assms(1)])
  have i: "\<forall>n. bit (in_answer_m game') n \<longleftrightarrow>
              bit (in_answer_m game) n \<or>
              (\<exists>i<kNumLetters. n = nat (guess ! i) \<and> bit (answer_bits_m game) (nat (guess ! i)))"
    by (auto simp: addGuess_in_answer [OF g'])
  show ?thesis using g' fr len m w i by blast
qed

theorem addGuess_cases_witness:
  "wfGame about_game \<and> okWord first_guess \<and>
   addGuess first_guess about_game =
     Inr \<lparr>match_m = [- 1, - 1, - 1, - 1, - 1],
          wrong_m = [131088, 147472, 131089, 655376, 131088],
          in_answer_m = 540673, answer_m = [0, 1, 14, 20, 19], answer_bits_m = 1589251\<rparr> \<and>
   (\<exists>game'. addGuess first_guess about_game = Inr game' \<and>
           answer_m game' = answer_m about_game \<and> answer_bits_m game' = answer_bits_m about_game \<and>
           length (match_m game') = kNumLetters \<and> length (wrong_m game') = kNumLetters \<and>
           (\<forall>i<kNumLetters. match_m game' ! i =
              (if first_guess ! i = answer_m about_game ! i then first_guess ! i else match_m about_game ! i)) \<and>
           (\<forall>j<kNumLetters. \<forall>n. bit (wrong_m game' ! j) n \<longleftrightarrow>
              bit (wrong_m about_game ! j) n \<or>
              (\<exists>i<kNumLetters. n = nat (first_guess ! i) \<and> first_guess ! i \<noteq> answer_m about_game ! i \<and>
                 (if bit (answer_bits_m about_game) (nat (first_guess ! i)) then j = i else True))) \<and>
           (\<forall>n. bit (in_answer_m game') n \<longleftrightarrow>
              bit (in_answer_m about_game) n \<or>
              (\<exists>i<kNumLetters. n = nat (first_guess ! i) \<and> bit (answer_bits_m about_game) (nat (first_guess ! i)))))"
proof -
  have a: "wfGame about_game" by code_simp
  have b: "okWord first_guess" by code_simp
  have v: "addGuess first_guess about_game =
     Inr \<lparr>match_m = [- 1, - 1, - 1, - 1, - 1],
          wrong_m = [131088, 147472, 131089, 655376, 131088],
          in_answer_m = 540673, answer_m = [0, 1, 14, 20, 19], answer_bits_m = 1589251\<rparr>"
    by code_simp
  from addGuess_cases [OF a b] have
    "\<exists>game'. addGuess first_guess about_game = Inr game' \<and>
           answer_m game' = answer_m about_game \<and> answer_bits_m game' = answer_bits_m about_game \<and>
           length (match_m game') = kNumLetters \<and> length (wrong_m game') = kNumLetters \<and>
           (\<forall>i<kNumLetters. match_m game' ! i =
              (if first_guess ! i = answer_m about_game ! i then first_guess ! i else match_m about_game ! i)) \<and>
           (\<forall>j<kNumLetters. \<forall>n. bit (wrong_m game' ! j) n \<longleftrightarrow>
              bit (wrong_m about_game ! j) n \<or>
              (\<exists>i<kNumLetters. n = nat (first_guess ! i) \<and> first_guess ! i \<noteq> answer_m about_game ! i \<and>
                 (if bit (answer_bits_m about_game) (nat (first_guess ! i)) then j = i else True))) \<and>
           (\<forall>n. bit (in_answer_m game') n \<longleftrightarrow>
              bit (in_answer_m about_game) n \<or>
              (\<exists>i<kNumLetters. n = nat (first_guess ! i) \<and> bit (answer_bits_m about_game) (nat (first_guess ! i))))" .
  with a b v show ?thesis by blast
qed

text \<open>
  Claim C1 as the specification words it leaves \<open>requiredPresent\<close> alone on an exact
  match. For the answer "roate" and the guess "roate" the source adds all five letters to
  \<open>in_answer_\<close> (the statement \<^verbatim>\<open>in_answer_ |= guess_in_answer\<close> precedes the case
  analysis), so the two updates differ.
\<close>

theorem specApplyGuess_counterexample:
  "newWorldleGame first_guess = Inr roate_game \<and>
   addGuess first_guess roate_game =
     Inr (roate_game\<lparr>match_m := first_guess, in_answer_m := 671761\<rparr>) \<and>
   specApplyGuess first_guess roate_game = roate_game\<lparr>match_m := first_guess\<rparr> \<and>
   addGuess first_guess roate_game \<noteq> Inr (specApplyGuess first_guess roate_game)"
  by code_simp

text \<open>
  Claim C2. For every clue state and every candidate of \<open>kNumLetters\<close> letters that are
  valid shift counts, \<open>matches\<close> returns, and it returns false exactly when some position
  has a known match that differs from the candidate's letter, or the candidate's letter
  at some position is among the letters forbidden there, or some letter of \<open>in_answer_\<close>
  does not occur in the candidate. The member function is \<open>const\<close>: it is a function of
  the clues and the word and returns nothing but the answer.
\<close>

theorem matches_iff:
  assumes "okWord w"
  shows "matches c w =
     Inr (\<not> ((\<exists>i<kNumLetters. match_m c ! i \<noteq> kUnknownLetter \<and> match_m c ! i \<noteq> w ! i) \<or>
              (\<exists>i<kNumLetters. bit (wrong_m c ! i) (nat (w ! i))) \<or>
              \<not> (\<forall>n. bit (in_answer_m c) n \<longrightarrow> (\<exists>i<kNumLetters. n = nat (w ! i)))))"
  using assms by (rule matches_char)

theorem matches_iff_witness:
  "okWord about \<and>
   matches (about_game\<lparr>wrong_m := [131088, 147472, 131089, 655376, 131088], in_answer_m := 540673\<rparr>) about = Inr True \<and>
   \<not> ((\<exists>i<kNumLetters. ([- 1, - 1, - 1, - 1, - 1] :: Word) ! i \<noteq> kUnknownLetter \<and> ([- 1, - 1, - 1, - 1, - 1] :: Word) ! i \<noteq> about ! i) \<or>
              (\<exists>i<kNumLetters. bit (([131088, 147472, 131089, 655376, 131088] :: LetterField list) ! i) (nat (about ! i))) \<or>
              \<not> (\<forall>n. bit (540673 :: LetterField) n \<longrightarrow> (\<exists>i<kNumLetters. n = nat (about ! i))))"
proof -
  have a: "okWord about" by code_simp
  have v: "matches (about_game\<lparr>wrong_m := [131088, 147472, 131089, 655376, 131088], in_answer_m := 540673\<rparr>) about = Inr True"
    by code_simp
  show ?thesis
    using a v matches_iff [OF a, of "about_game\<lparr>wrong_m := [131088, 147472, 131089, 655376, 131088], in_answer_m := 540673\<rparr>"]
    by (simp add: about_game_def)
qed

text \<open>
  Claim C5. For every answer and every sequence of guesses, all of \<open>kNumLetters\<close> valid
  letters, the game is built, every prefix of the guesses is applied, and after each of
  them (the empty one included) \<open>matches\<close> returns true on the answer.
\<close>

theorem answer_always_matches:
  assumes "okWord answer" "list_all okWord guesses"
  shows "\<exists>game0. newWorldleGame answer = Inr game0 \<and>
           (\<forall>k\<le>length guesses. \<exists>game. addGuesses (take k guesses) game0 = Inr game \<and>
              matches game answer = Inr True)"
proof -
  obtain game0 where g0: "newWorldleGame answer = Inr game0"
    using newWorldleGame_total [OF assms(1)] by blast
  have wf: "wfWord answer" using assms(1) by (simp add: okWord_def wfWord_def)
  have "\<exists>game. addGuesses (take k guesses) game0 = Inr game \<and> matches game answer = Inr True" for k
  proof -
    have "list_all okWord (take k guesses)"
      using assms(2) by (auto simp: list_all_iff dest: in_set_takeD)
    then obtain game where g: "addGuesses (take k guesses) game0 = Inr game"
      using addGuesses_total by blast
    from reachable_matches_answer [OF g0 wf g] g show ?thesis by blast
  qed
  with g0 show ?thesis by blast
qed

theorem answer_always_matches_witness:
  "okWord about \<and> list_all okWord [first_guess, about] \<and>
   (\<exists>game0. newWorldleGame about = Inr game0 \<and>
      (\<forall>k\<le>length [first_guess, about].
         \<exists>game. addGuesses (take k [first_guess, about]) game0 = Inr game \<and>
                matches game about = Inr True))"
proof -
  have a: "okWord about" by code_simp
  have b: "list_all okWord [first_guess, about]" by code_simp
  show ?thesis using a b answer_always_matches [OF a b] by simp
qed

text \<open>
  Claim C7. In every game reached from the constructor by a sequence of guesses, one more
  \<open>addGuess\<close> keeps every match that is set, and every letter field of \<open>wrong_\<close> and
  \<open>in_answer_\<close> keeps every bit it has.
\<close>

theorem addGuess_monotone:
  assumes "okWord answer" "list_all okWord guesses" "okWord guess"
  shows "\<exists>game0 game game'.
           newWorldleGame answer = Inr game0 \<and> addGuesses guesses game0 = Inr game \<and>
           addGuess guess game = Inr game' \<and>
           (\<forall>i<kNumLetters.
              (match_m game ! i \<noteq> kUnknownLetter \<longrightarrow> match_m game' ! i = match_m game ! i) \<and>
              (\<forall>n. bit (wrong_m game ! i) n \<longrightarrow> bit (wrong_m game' ! i) n)) \<and>
           (\<forall>n. bit (in_answer_m game) n \<longrightarrow> bit (in_answer_m game') n)"
proof -
  obtain game0 where g0: "newWorldleGame answer = Inr game0"
    using newWorldleGame_total [OF assms(1)] by blast
  obtain game where g: "addGuesses guesses game0 = Inr game"
    using addGuesses_total [OF assms(2)] by blast
  obtain game' where g': "addGuess guess game = Inr game'"
    using addGuess_total [OF assms(3)] by blast
  have wfa: "wfWord answer" using assms(1) by (simp add: okWord_def wfWord_def)
  have inv: "gameInv game"
    using addGuesses_inv [OF g newWorldleGame_inv [OF g0 wfa]] .
  then have wf: "wfGame game"
    and m: "\<forall>i<kNumLetters. match_m game ! i = kUnknownLetter \<or> match_m game ! i = answer_m game ! i"
    by (simp_all add: gameInv_def)
  have "\<forall>i<kNumLetters.
          (match_m game ! i \<noteq> kUnknownLetter \<longrightarrow> match_m game' ! i = match_m game ! i) \<and>
          (\<forall>n. bit (wrong_m game ! i) n \<longrightarrow> bit (wrong_m game' ! i) n)"
    using m by (auto simp: addGuess_match [OF g' wf] addGuess_wrong [OF g' wf])
  moreover have "\<forall>n. bit (in_answer_m game) n \<longrightarrow> bit (in_answer_m game') n"
    by (simp add: addGuess_in_answer [OF g'])
  ultimately show ?thesis using g0 g g' by blast
qed

theorem addGuess_monotone_witness:
  "okWord about \<and> list_all okWord [first_guess] \<and> okWord [0, 0, 1, 1, 14] \<and>
   (\<exists>game0 game game'.
           newWorldleGame about = Inr game0 \<and> addGuesses [first_guess] game0 = Inr game \<and>
           addGuess [0, 0, 1, 1, 14] game = Inr game' \<and>
           (\<forall>i<kNumLetters.
              (match_m game ! i \<noteq> kUnknownLetter \<longrightarrow> match_m game' ! i = match_m game ! i) \<and>
              (\<forall>n. bit (wrong_m game ! i) n \<longrightarrow> bit (wrong_m game' ! i) n)) \<and>
           (\<forall>n. bit (in_answer_m game) n \<longrightarrow> bit (in_answer_m game') n))"
proof -
  have a: "okWord about" by code_simp
  have b: "list_all okWord [first_guess]" by code_simp
  have c: "okWord [0, 0, 1, 1, 14]" by code_simp
  show ?thesis using a b c addGuess_monotone [OF a b c] by simp
qed

text \<open>
  Claim C8. For every game whose arrays have their length and every guess, adding the
  guess twice in succession gives exactly what adding it once gives (the same game, or
  the same stop when a letter of the guess is no valid shift count).
\<close>

theorem addGuess_idempotent:
  "wfGame game \<Longrightarrow> addGuesses [guess, guess] game = addGuesses [guess] game"
  by (cases "addGuess guess game") (simp_all add: addGuesses_def addGuess_twice split: sum.splits)

theorem addGuess_idempotent_witness:
  "wfGame about_game \<and>
   addGuesses [first_guess, first_guess] about_game = addGuesses [first_guess] about_game \<and>
   addGuesses [first_guess] about_game =
     Inr \<lparr>match_m = [- 1, - 1, - 1, - 1, - 1],
          wrong_m = [131088, 147472, 131089, 655376, 131088],
          in_answer_m = 540673, answer_m = [0, 1, 14, 20, 19], answer_bits_m = 1589251\<rparr>"
proof -
  have wf: "wfGame about_game" by code_simp
  have v: "addGuesses [first_guess] about_game =
     Inr \<lparr>match_m = [- 1, - 1, - 1, - 1, - 1],
          wrong_m = [131088, 147472, 131089, 655376, 131088],
          in_answer_m = 540673, answer_m = [0, 1, 14, 20, 19], answer_bits_m = 1589251\<rparr>"
    by code_simp
  show ?thesis using wf v addGuess_idempotent [OF wf, of first_guess] by simp
qed

section \<open>The trial\<close>

lemma matches_total: "okWord w \<Longrightarrow> \<exists>b. matches c w = Inr b"
  by (simp add: matches_char)

lemma matchesLoop_True:
  "matchesLoop c w is acc = Inr True \<Longrightarrow> \<forall>i\<in>set is. shiftDefined (w ! i)"
proof (induction "is" arbitrary: acc)
  case Nil
  then show ?case by simp
next
  case (Cons i "is")
  then show ?case
    by (auto simp: Let_def letter_bit_Inr split: if_splits sum.splits)
qed

lemma matches_True_ok: "matches c w = Inr True \<Longrightarrow> wfWord w \<Longrightarrow> okWord w"
  using matchesLoop_True [of c w "[0..<kNumLetters]" 0]
  by (simp add: matches_def okWord_iff wfWord_def)

lemma keepMatching_Inr:
  "keepMatching game ws = Inr vs \<Longrightarrow> vs = filter (\<lambda>w. matches game w = Inr True) ws"
proof (induction ws arbitrary: vs)
  case Nil
  then show ?case by simp
next
  case (Cons w ws)
  then show ?case
    by (auto split: sum.splits if_splits)
qed

lemma keepMatching_total:
  "list_all okWord ws \<Longrightarrow> \<exists>vs. keepMatching game ws = Inr vs"
proof (induction ws)
  case Nil
  then show ?case by simp
next
  case (Cons w ws)
  then obtain b vs where "matches game w = Inr b" "keepMatching game ws = Inr vs"
    using matches_total [of w game] by auto
  then show ?case by simp
qed

lemma count_if_Inr:
  "count_if p xs = Inr n \<Longrightarrow> n = int (length (filter (\<lambda>x. p x = Inr True) xs))"
proof (induction xs arbitrary: n)
  case Nil
  then show ?case by simp
next
  case (Cons x xs)
  then show ?case
    by (auto split: sum.splits if_splits)
qed

lemma count_if_total:
  "\<forall>x\<in>set xs. \<exists>b. p x = Inr b \<Longrightarrow> \<exists>n. count_if p xs = Inr n"
proof (induction xs)
  case Nil
  then show ?case by simp
next
  case (Cons x xs)
  then obtain b n where "p x = Inr b" "count_if p xs = Inr n" by auto
  then show ?case by simp
qed

lemma count_matches_total:
  "list_all okWord ws \<Longrightarrow> \<exists>n. count_if (matches game) ws = Inr n"
  by (rule count_if_total) (simp add: list_all_iff matches_total)

lemma scoreEntry_empty:
  assumes "okWord (entries ! i)" "list_all okWord valid"
  shows "scoreEntry entries valid game i [] = Inl OutOfBounds"
proof -
  obtain g where g: "getCopyWithGuess game (entries ! i) = Inr g"
    using addGuess_total [OF assms(1)] by (auto simp: getCopyWithGuess_def)
  obtain n where "count_if (matches g) valid = Inr n"
    using count_matches_total [OF assms(2)] by blast
  with g show ?thesis by (simp add: scoreEntry_def)
qed

lemma scoreAnswer_empty:
  assumes "entries \<noteq> []" "okWord (entries ! 0)" "list_all okWord valid" "okWord v" "list_all okWord bg"
  shows "scoreAnswer entries bg valid v [] = Inl OutOfBounds"
proof -
  obtain g0 where g0: "newWorldleGame v = Inr g0"
    using newWorldleGame_total [OF assms(4)] by blast
  obtain g where g: "addGuesses bg g0 = Inr g"
    using addGuesses_total [OF assms(5)] by blast
  have "[0..<length entries] = 0 # [1..<length entries]"
    using assms(1) by (simp add: upt_conv_Cons)
  then show ?thesis
    using g0 g scoreEntry_empty [OF assms(2,3)] by (simp add: scoreAnswer_def)
qed

lemma scoreRound_empty:
  assumes "entries \<noteq> []" "okWord (entries ! 0)" "list_all okWord valid" "valid \<noteq> []" "list_all okWord bg"
  shows "scoreRound entries bg valid [] = Inl OutOfBounds"
proof -
  obtain v vs where v: "valid = v # vs" using assms(4) by (cases valid) auto
  then have "okWord v" using assms(3) by simp
  from scoreAnswer_empty [OF assms(1,2,3) this assms(5)] v show ?thesis
    by (simp add: scoreRound_def)
qed

lemma seedTrial_Inr:
  assumes "seedTrial entries answer_idx num_answers = Inr st"
  shows "answer_idx < length entries" "num_answers \<le> length entries"
    and "best_guesses st = [first_guess]" "scores st = []" "trial_count st = 1"
    and "\<exists>game0. newWorldleGame (entries ! answer_idx) = Inr game0 \<and>
           addGuess first_guess game0 = Inr (trial_game st) \<and>
           keepMatching (trial_game st) (take num_answers entries) = Inr (valid_answers st)"
  using assms
  by (auto simp: seedTrial_def Let_def split: if_splits sum.splits)

lemma okWord_first_guess: "okWord first_guess"
  by code_simp

lemma greedyRound_unsized:
  assumes "seedTrial entries answer_idx num_answers = Inr st"
    and "1 < length (valid_answers st)"
    and "list_all okWord entries"
  shows "greedyRound entries st = Inl OutOfBounds"
proof -
  note s = seedTrial_Inr [OF assms(1)]
  have ne: "entries \<noteq> []" using s(1) by auto
  then have e0: "okWord (entries ! 0)"
    using assms(3) by (simp add: list_all_length)
  from s(6) have "valid_answers st = filter (\<lambda>w. matches (trial_game st) w = Inr True) (take num_answers entries)"
    using keepMatching_Inr by blast
  then have "set (valid_answers st) \<subseteq> set entries"
    by (auto dest: in_set_takeD)
  then have va: "list_all okWord (valid_answers st)"
    using assms(3) by (auto simp: list_all_iff)
  have vne: "valid_answers st \<noteq> []" using assms(2) by auto
  have "scoreRound entries (best_guesses st) (valid_answers st) (scores st) = Inl OutOfBounds"
    using scoreRound_empty [OF ne e0 va vne, of "[first_guess]"] s(3,4) okWord_first_guess by simp
  then show ?thesis
    by (simp add: greedyRound_def)
qed

lemma loop_entered_unsized:
  assumes "seedTrial entries answer_idx num_answers = Inr st"
    and "1 < length (valid_answers st)"
    and "list_all okWord entries"
  shows "greedyWhile entries st = Some (Inl OutOfBounds)"
  using greedyRound_unsized [OF assms] assms(2) by (subst greedyWhile.simps) simp

lemma greedyRound_Inr:
  assumes "greedyRound entries st = Inr st'"
  shows "valid_answers st' = filter (\<lambda>w. matches (trial_game st') w = Inr True) (valid_answers st)"
    and "trial_count st' = trial_count st + 1"
    and "\<exists>scores'. scoreRound entries (best_guesses st) (valid_answers st) (scores st) = Inr scores' \<and>
           min_element scores' < length entries \<and>
           best_guesses st' = best_guesses st @ [entries ! min_element scores'] \<and>
           addGuess (entries ! min_element scores') (trial_game st) = Inr (trial_game st') \<and>
           scores st' = map (\<lambda>_. 0) scores'"
  using assms
  by (auto simp: greedyRound_def Let_def dest: keepMatching_Inr split: sum.splits if_splits)

lemma greedyWhile_exit:
  "greedyWhile entries st = Some r \<Longrightarrow>
     \<forall>st'. r = Inr st' \<longrightarrow>
           length (valid_answers st') \<le> 1 \<and> set (valid_answers st') \<subseteq> set (valid_answers st) \<and>
           trial_count st \<le> trial_count st'"
proof (induction entries st r rule: greedyWhile.raw_induct [rotated, consumes 1])
  case (1 loop entries st r)
  show ?case
  proof (cases "1 < length (valid_answers st)")
    case False
    with 1(2) show ?thesis by auto
  next
    case True
    show ?thesis
    proof (cases "greedyRound entries st")
      case (Inl e)
      with True 1(2) show ?thesis by auto
    next
      case (Inr st1)
      with True 1(2) have "loop entries st1 = Some r" by simp
      from 1(1) [OF this] greedyRound_Inr(1,2) [OF Inr] show ?thesis
        by auto
    qed
  qed
qed

lemma finishTrial_Inr:
  "finishTrial answer st = Inr c \<longleftrightarrow> valid_answers st = [answer] \<and> c = trial_count st"
  by (cases "valid_answers st") (auto simp: finishTrial_def)

lemma finishTrial_Inl:
  "finishTrial answer st = Inl e \<Longrightarrow> e = AssertionFailed"
  by (auto simp: finishTrial_def split: if_splits)

lemma finishTrial_fail:
  "valid_answers st = [] \<or> answer \<notin> set (valid_answers st) \<Longrightarrow> length (valid_answers st) \<le> 1 \<Longrightarrow>
     finishTrial answer st = Inl AssertionFailed"
  by (cases "valid_answers st") (auto simp: finishTrial_def)

lemma runGreedyTrial_result:
  "(runGreedyTrial entries answer_idx num_answers = Some (Inr c) \<longrightarrow>
      (\<exists>st st'. seedTrial entries answer_idx num_answers = Inr st \<and>
                greedyWhile entries st = Some (Inr st') \<and>
                valid_answers st' = [entries ! answer_idx] \<and> c = trial_count st')) \<and>
   (\<forall>st st'. seedTrial entries answer_idx num_answers = Inr st \<and>
              greedyWhile entries st = Some (Inr st') \<and>
              (valid_answers st' = [] \<or> entries ! answer_idx \<notin> set (valid_answers st')) \<longrightarrow>
              runGreedyTrial entries answer_idx num_answers = Some (Inl AssertionFailed)) \<and>
   (\<forall>st. seedTrial entries answer_idx num_answers = Inr st \<and>
          entries ! answer_idx \<notin> set (valid_answers st) \<longrightarrow>
          runGreedyTrial entries answer_idx num_answers \<noteq> Some (Inr c))"
proof (intro conjI allI impI)
  assume "runGreedyTrial entries answer_idx num_answers = Some (Inr c)"
  then show "\<exists>st st'. seedTrial entries answer_idx num_answers = Inr st \<and>
                greedyWhile entries st = Some (Inr st') \<and>
                valid_answers st' = [entries ! answer_idx] \<and> c = trial_count st'"
    by (auto simp: runGreedyTrial_def finishTrial_Inr split: sum.splits option.splits)
next
  fix st st'
  assume a: "seedTrial entries answer_idx num_answers = Inr st \<and>
              greedyWhile entries st = Some (Inr st') \<and>
              (valid_answers st' = [] \<or> entries ! answer_idx \<notin> set (valid_answers st'))"
  then have "length (valid_answers st') \<le> 1"
    using greedyWhile_exit [of entries st "Inr st'"] by simp
  with a show "runGreedyTrial entries answer_idx num_answers = Some (Inl AssertionFailed)"
    by (simp add: runGreedyTrial_def finishTrial_fail)
next
  fix st
  assume a: "seedTrial entries answer_idx num_answers = Inr st \<and>
          entries ! answer_idx \<notin> set (valid_answers st)"
  show "runGreedyTrial entries answer_idx num_answers \<noteq> Some (Inr c)"
  proof
    assume "runGreedyTrial entries answer_idx num_answers = Some (Inr c)"
    then obtain st' where w: "greedyWhile entries st = Some (Inr st')"
      and v: "valid_answers st' = [entries ! answer_idx]"
      using a by (auto simp: runGreedyTrial_def finishTrial_Inr split: sum.splits option.splits)
    from greedyWhile_exit [OF w] v a show False by auto
  qed
qed

lemma runGreedyTrial_as_written:
  assumes "list_all okWord entries"
  shows "runGreedyTrial entries answer_idx num_answers =
     (case seedTrial entries answer_idx num_answers of
        Inl e \<Rightarrow> Some (Inl e)
      | Inr st \<Rightarrow>
          if 1 < length (valid_answers st) then Some (Inl OutOfBounds)
          else if valid_answers st = [entries ! answer_idx] then Some (Inr 1)
          else Some (Inl AssertionFailed))"
proof (cases "seedTrial entries answer_idx num_answers")
  case (Inl e)
  then show ?thesis by (simp add: runGreedyTrial_def)
next
  case (Inr st)
  show ?thesis
  proof (cases "1 < length (valid_answers st)")
    case True
    then show ?thesis using loop_entered_unsized [OF Inr True assms] Inr
      by (simp add: runGreedyTrial_def)
  next
    case False
    then have w: "greedyWhile entries st = Some (Inr st)"
      by (subst greedyWhile.simps) simp
    have tc: "trial_count st = 1" using seedTrial_Inr(5) [OF Inr] .
    show ?thesis
    proof (cases "valid_answers st = [entries ! answer_idx]")
      case True
      then show ?thesis using Inr w tc False
        by (simp add: runGreedyTrial_def finishTrial_def)
    next
      case ne: False
      have "finishTrial (entries ! answer_idx) st = Inl AssertionFailed"
      proof (cases "finishTrial (entries ! answer_idx) st")
        case (Inl e)
        then show ?thesis using finishTrial_Inl by blast
      next
        case (Inr c)
        then show ?thesis using ne by (simp add: finishTrial_Inr)
      qed
      then show ?thesis using Inr w ne False
        by (simp add: runGreedyTrial_def)
    qed
  qed
qed

lemma of_char_lt_256: "(of_char c :: nat) < 256"
  by (metis of_char_mod_256 mod_less_divisor zero_less_numeral)

lemma of_char_int_range: "0 \<le> (of_char c :: int) \<and> (of_char c :: int) < 256"
proof -
  have "(of_char c :: int) = int (of_char c)" by (simp add: of_nat_of_char)
  then show ?thesis using of_char_lt_256 [of c] by simp
qed

section \<open>The claims about the copy, the codec and the trial\<close>

text \<open>
  Claim C9. For every store, every game object \<open>this\<close> in it, a return slot \<open>ret\<close> that is
  another object, and every guess of \<open>kNumLetters\<close> valid letters: \<open>getCopyWithGuess\<close>
  returns; the object in the return slot is the game of \<open>this\<close> with the guess added; the
  object \<open>this\<close> (clues, answer and answer bits) and every other object are as before; and
  a later \<open>addGuess\<close> on either of the two leaves the other one as it is.
\<close>

theorem getCopyWithGuess_frame:
  assumes "ret \<noteq> this" "okWord guess"
  shows "\<exists>h' game'. getCopyWithGuess_obj this ret guess h = Inr h' \<and>
           addGuess guess (h this) = Inr game' \<and>
           getCopyWithGuess (h this) guess = Inr game' \<and>
           h' ret = game' \<and> h' this = h this \<and> (\<forall>p. p \<noteq> ret \<longrightarrow> h' p = h p) \<and>
           (\<forall>g2 h''. addGuess_obj ret g2 h' = Inr h'' \<longrightarrow> h'' this = h this) \<and>
           (\<forall>g2 h''. addGuess_obj this g2 h' = Inr h'' \<longrightarrow> h'' ret = game')"
proof -
  obtain game' where g: "addGuess guess (h this) = Inr game'"
    using addGuess_total [OF assms(2)] by blast
  then have "getCopyWithGuess_obj this ret guess h = Inr ((h(ret := h this))(ret := game'))"
    by (simp add: getCopyWithGuess_obj_def addGuess_obj_def)
  with g assms(1) show ?thesis
    by (auto simp: getCopyWithGuess_def addGuess_obj_def split: sum.splits)
qed

theorem getCopyWithGuess_frame_witness:
  "(1::nat) \<noteq> 0 \<and> okWord first_guess \<and>
   (\<exists>h'. getCopyWithGuess_obj 0 1 first_guess (\<lambda>_. about_game) = Inr h' \<and>
      h' 0 = about_game \<and>
      h' 1 = \<lparr>match_m = [- 1, - 1, - 1, - 1, - 1],
               wrong_m = [131088, 147472, 131089, 655376, 131088],
               in_answer_m = 540673, answer_m = [0, 1, 14, 20, 19], answer_bits_m = 1589251\<rparr>)"
proof -
  have a: "(1::nat) \<noteq> 0" by simp
  have b: "okWord first_guess" by code_simp
  have v: "addGuess first_guess about_game =
     Inr \<lparr>match_m = [- 1, - 1, - 1, - 1, - 1],
          wrong_m = [131088, 147472, 131089, 655376, 131088],
          in_answer_m = 540673, answer_m = [0, 1, 14, 20, 19], answer_bits_m = 1589251\<rparr>"
    by code_simp
  show ?thesis
    using a b v getCopyWithGuess_frame [OF a b, of "\<lambda>_. about_game"] by auto
qed

text \<open>
  Claim C10, as amended. \<open>fromString\<close> stops on its assertion when the string's length is
  not \<open>kNumLetters\<close>. On every string of that length it returns the word whose letters are
  the characters minus \<open>'a'\<close>, whatever the characters are: the letters are all valid
  letter codes exactly when every character is one of \<open>'a'\<close> to \<open>'z'\<close>, and no other
  string is refused.
\<close>

theorem fromString_result:
  "(length str \<noteq> kNumLetters \<longrightarrow> fromString sg str = Inl AssertionFailed) \<and>
   (length str = kNumLetters \<longrightarrow>
      (\<exists>w. fromString sg str = Inr w \<and> length w = kNumLetters \<and>
           (\<forall>i<kNumLetters. w ! i = char_int sg (str ! i) - 97) \<and>
           (list_all validLetter w \<longleftrightarrow> (\<forall>c\<in>set str. 97 \<le> (of_char c :: nat) \<and> (of_char c :: nat) \<le> 122))))"
proof (intro conjI impI)
  assume "length str \<noteq> kNumLetters"
  then show "fromString sg str = Inl AssertionFailed" by (simp add: fromString_def)
next
  assume len: "length str = kNumLetters"
  have a: "char_int sg CHR ''a'' = 97" by (simp add: char_int_def)
  define w where "w = map (\<lambda>i. char_int sg (str ! i) - 97) [0..<kNumLetters]"
  have f: "fromString sg str = Inr w" using len a by (simp add: fromString_def w_def)
  have l: "length w = kNumLetters" by (simp add: w_def)
  have n: "\<forall>i<kNumLetters. w ! i = char_int sg (str ! i) - 97" by (simp add: w_def)
  have v: "validLetter (char_int sg c - 97) \<longleftrightarrow> 97 \<le> (of_char c :: nat) \<and> (of_char c :: nat) \<le> 122" for c
  proof -
    define n :: nat where "n = of_char c"
    have b: "n < 256" using of_char_lt_256 [of c] by (simp add: n_def)
    have "char_int sg c = (if sg \<and> 128 \<le> int n then int n - 256 else int n)"
      unfolding char_int_def n_def Let_def ..
    then have "validLetter (char_int sg c - 97) \<longleftrightarrow> 97 \<le> n \<and> n \<le> 122"
      using b by (auto simp: validLetter_def alphabet_size_def)
    then show ?thesis by (simp add: n_def)
  qed
  have "list_all validLetter w \<longleftrightarrow> (\<forall>i<kNumLetters. validLetter (char_int sg (str ! i) - 97))"
    using l n by (simp add: list_all_length)
  also have "\<dots> \<longleftrightarrow> (\<forall>c\<in>set str. 97 \<le> (of_char c :: nat) \<and> (of_char c :: nat) \<le> 122)"
    using len by (simp add: v all_set_conv_all_nth)
  finally show "\<exists>w. fromString sg str = Inr w \<and> length w = kNumLetters \<and>
           (\<forall>i<kNumLetters. w ! i = char_int sg (str ! i) - 97) \<and>
           (list_all validLetter w \<longleftrightarrow> (\<forall>c\<in>set str. 97 \<le> (of_char c :: nat) \<and> (of_char c :: nat) \<le> 122))"
    using f l n by blast
qed

theorem fromString_result_witness:
  "length ''roate'' = kNumLetters \<and> fromString True ''roate'' = Inr first_guess \<and>
   list_all validLetter first_guess \<and>
   length ''roat'' \<noteq> kNumLetters \<and> fromString True ''roat'' = Inl AssertionFailed"
proof -
  have a: "length ''roate'' = kNumLetters" by code_simp
  have b: "length ''roat'' \<noteq> kNumLetters" by code_simp
  have c: "fromString True ''roate'' = Inr first_guess" by code_simp
  have d: "list_all validLetter first_guess" by code_simp
  show ?thesis
    using a b c d fromString_result [of "''roate''" True] fromString_result [of "''roat''" True]
    by simp
qed

text \<open>
  Claim C10 as stated has \<open>fromString\<close> fail on a symbol outside the alphabet. The string
  "ROATE" has the right length and is converted, to five negative letters.
\<close>

theorem fromString_counterexample:
  "length ''ROATE'' = kNumLetters \<and>
   fromString True ''ROATE'' = Inr [- 15, - 18, - 32, - 13, - 28] \<and>
   \<not> list_all validLetter [- 15, - 18, - 32, - 13, - 28]"
  by code_simp

text \<open>
  Claim C4 (every access \<^verbatim>\<open>scores[i]\<close> of the scoring loop is at an index below
  \<open>scores.size()\<close>) fails in the source: \<open>scores\<close> is declared and never sized, so its
  size is 0 when the loop is entered. For every dictionary of words of valid letters, if the answers
  left by the first guess are more than one, the loop is entered and the first
  \<^verbatim>\<open>scores[i] += ...\<close>, at \<open>i = 0\<close>, is outside the vector: the run stops there.
\<close>

theorem scores_out_of_bounds:
  assumes "seedTrial entries answer_idx num_answers = Inr st"
    and "1 < length (valid_answers st)"
    and "list_all okWord entries"
  shows "scores st = [] \<and> greedyRound entries st = Inl OutOfBounds \<and>
         runGreedyTrial entries answer_idx num_answers = Some (Inl OutOfBounds)"
proof -
  have w: "greedyWhile entries st = Some (Inl OutOfBounds)"
    using loop_entered_unsized [OF assms] .
  have "greedyRound entries st = Inl OutOfBounds"
    using greedyRound_unsized [OF assms] .
  with w assms(1) seedTrial_Inr(4) [OF assms(1)] show ?thesis
    by (simp add: runGreedyTrial_def)
qed

lemma seedTrial_about_atoll:
  "seedTrial [about, atoll] 0 2 =
     Inr \<lparr>trial_game = \<lparr>match_m = [- 1, - 1, - 1, - 1, - 1],
                        wrong_m = [131088, 147472, 131089, 655376, 131088],
                        in_answer_m = 540673, answer_m = [0, 1, 14, 20, 19],
                        answer_bits_m = 1589251\<rparr>,
          valid_answers = [about, atoll], best_guesses = [first_guess], scores = [],
          trial_count = 1\<rparr>"
  by code_simp

theorem scores_out_of_bounds_witness:
  "list_all okWord [about, atoll] \<and>
   map_sum id valid_answers (seedTrial [about, atoll] 0 2) = Inr [about, atoll] \<and>
   map_sum id scores (seedTrial [about, atoll] 0 2) = Inr [] \<and>
   runGreedyTrial [about, atoll] 0 2 = Some (Inl OutOfBounds)"
proof -
  have ok: "list_all okWord [about, atoll]" by code_simp
  have len: "1 < length (valid_answers
       \<lparr>trial_game = \<lparr>match_m = [- 1, - 1, - 1, - 1, - 1],
                       wrong_m = [131088, 147472, 131089, 655376, 131088],
                       in_answer_m = 540673, answer_m = [0, 1, 14, 20, 19],
                       answer_bits_m = 1589251\<rparr>,
         valid_answers = [about, atoll], best_guesses = [first_guess], scores = [],
         trial_count = 1\<rparr>)"
    by simp
  show ?thesis
    using ok seedTrial_about_atoll scores_out_of_bounds [OF seedTrial_about_atoll len ok] by simp
qed

text \<open>
  Claim C6 (a count is returned only once the feasible set is the answer alone, and a
  feasible set that is empty or, after filtering, lacks the answer ends the run on the
  consistency assertions) fails in the source on the dictionary "atoll", "allot", "about"
  with the answer at index 2 and two candidate answers: the answers left by the first guess are "atoll"
  and "allot", which do not contain the answer "about", and the run does not stop on an
  assertion: it enters the loop and stops on \<^verbatim>\<open>scores[0]\<close>, outside the vector. (What
  the two assertions after the loop do once they are reached is \<open>runGreedyTrial_result\<close>.)
\<close>

theorem runGreedyTrial_answer_not_candidate:
  "map_sum id valid_answers (seedTrial [atoll, allot, about] 2 2) = Inr [atoll, allot] \<and>
   [atoll, allot, about] ! 2 \<notin> set [atoll, allot] \<and>
   runGreedyTrial [atoll, allot, about] 2 2 = Some (Inl OutOfBounds)"
proof -
  have ok: "list_all okWord [atoll, allot, about]" by code_simp
  have s: "seedTrial [atoll, allot, about] 2 2 =
     Inr \<lparr>trial_game = \<lparr>match_m = [- 1, - 1, - 1, - 1, - 1],
                        wrong_m = [131088, 147472, 131089, 655376, 131088],
                        in_answer_m = 540673, answer_m = [0, 1, 14, 20, 19],
                        answer_bits_m = 1589251\<rparr>,
          valid_answers = [atoll, allot], best_guesses = [first_guess], scores = [],
          trial_count = 1\<rparr>"
    by code_simp
  have n: "[atoll, allot, about] ! 2 \<notin> set [atoll, allot]" by code_simp
  show ?thesis
    using s n runGreedyTrial_as_written [OF ok, of 2 2] by simp
qed

section \<open>The scoring round\<close>

lemma leftFor_total:
  assumes "okWord v" "list_all okWord guesses" "list_all okWord candidates"
  shows "\<exists>n. leftFor guesses candidates v = Inr n"
proof -
  obtain g0 where g0: "newWorldleGame v = Inr g0"
    using newWorldleGame_total [OF assms(1)] by blast
  obtain g where g: "addGuesses guesses g0 = Inr g"
    using addGuesses_total [OF assms(2)] by blast
  obtain n where "count_if (matches g) candidates = Inr n"
    using count_matches_total [OF assms(3)] by blast
  with g0 g show ?thesis by (simp add: leftFor_def)
qed

lemma leftFor_snoc:
  assumes "newWorldleGame v = Inr g0" "addGuesses bg g0 = Inr g"
  shows "leftFor (bg @ [w]) candidates v =
     (case getCopyWithGuess g w of
        Inl e \<Rightarrow> Inl e
      | Inr g' \<Rightarrow> count_if (matches g') candidates)"
  using assms
  by (simp add: leftFor_def addGuesses_def forEach_append getCopyWithGuess_def split: sum.splits)

lemma scoreEntry_leftFor:
  assumes "newWorldleGame v = Inr g0" "addGuesses bg g0 = Inr g"
  shows "scoreEntry entries valid g i sc =
     (case leftFor (bg @ [entries ! i]) valid v of
        Inl e \<Rightarrow> Inl e
      | Inr n \<Rightarrow> if i < length sc then Inr (sc[i := sc ! i + n]) else Inl OutOfBounds)"
  by (simp add: scoreEntry_def leftFor_snoc [OF assms] split: sum.splits)

lemma scoreEntries_upto:
  assumes g: "newWorldleGame v = Inr g0" "addGuesses bg g0 = Inr g"
    and ok: "\<forall>i<length entries. leftFor (bg @ [entries ! i]) valid v = Inr (c i)"
    and n: "n \<le> length entries" "n \<le> length sc"
  shows "forEach [0..<n] (scoreEntry entries valid g) sc =
           Inr (map (\<lambda>i. if i < n then sc ! i + c i else sc ! i) [0..<length sc])"
  using n
proof (induction n)
  case 0
  then show ?case by (simp add: map_nth)
next
  case (Suc n)
  let ?s1 = "map (\<lambda>i. if i < n then sc ! i + c i else sc ! i) [0..<length sc]"
  have ih: "forEach [0..<n] (scoreEntry entries valid g) sc = Inr ?s1"
    using Suc by simp
  have nl: "n < length sc" "n < length entries" using Suc.prems by simp_all
  have step: "scoreEntry entries valid g n ?s1 = Inr (?s1[n := ?s1 ! n + c n])"
    using ok nl by (simp add: scoreEntry_leftFor [OF g])
  have "?s1[n := ?s1 ! n + c n] =
        map (\<lambda>i. if i < Suc n then sc ! i + c i else sc ! i) [0..<length sc]"
    using nl by (intro nth_equalityI) (auto simp: nth_list_update less_Suc_eq)
  with ih step show ?case
    by (simp add: forEach_append)
qed

lemma scoreAnswer_sum:
  assumes "okWord v" "list_all okWord bg" "list_all okWord entries" "list_all okWord valid"
    and "length sc = length entries"
  shows "\<exists>cs. map (\<lambda>i. leftFor (bg @ [entries ! i]) valid v) [0..<length entries] = map Inr cs \<and>
              scoreAnswer entries bg valid v sc = Inr (map2 (+) sc cs)"
proof -
  obtain g0 where g0: "newWorldleGame v = Inr g0"
    using newWorldleGame_total [OF assms(1)] by blast
  obtain g where g: "addGuesses bg g0 = Inr g"
    using addGuesses_total [OF assms(2)] by blast
  define c where "c i = projr (leftFor (bg @ [entries ! i]) valid v)" for i
  have ok: "\<forall>i<length entries. leftFor (bg @ [entries ! i]) valid v = Inr (c i)"
  proof (intro allI impI)
    fix i assume "i < length entries"
    then have "okWord (entries ! i)" using assms(3) by (simp add: list_all_length)
    then have "list_all okWord (bg @ [entries ! i])" using assms(2) by simp
    from leftFor_total [OF assms(1) this assms(4)] show "leftFor (bg @ [entries ! i]) valid v = Inr (c i)"
      by (auto simp: c_def)
  qed
  let ?cs = "map c [0..<length entries]"
  have a: "map (\<lambda>i. leftFor (bg @ [entries ! i]) valid v) [0..<length entries] = map Inr ?cs"
    using ok by simp
  have "scoreAnswer entries bg valid v sc =
          Inr (map (\<lambda>i. if i < length entries then sc ! i + c i else sc ! i) [0..<length sc])"
    using scoreEntries_upto [OF g0 g ok, of "length entries" sc] assms(5) g0 g
    by (simp add: scoreAnswer_def)
  also have "map (\<lambda>i. if i < length entries then sc ! i + c i else sc ! i) [0..<length sc]
               = map2 (+) sc ?cs"
    using assms(5) by (intro nth_equalityI) simp_all
  finally show ?thesis using a by blast
qed

lemma leftFor_projr:
  assumes "okWord v" "list_all okWord guesses" "list_all okWord candidates"
  shows "leftFor guesses candidates v = Inr (projr (leftFor guesses candidates v))"
  using leftFor_total [OF assms] by auto

lemma scoreAnswer_val:
  assumes "okWord v" "list_all okWord bg" "list_all okWord entries" "list_all okWord valid"
    and "length sc = length entries"
  shows "scoreAnswer entries bg valid v sc =
           Inr (map (\<lambda>i. sc ! i + projr (leftFor (bg @ [entries ! i]) valid v)) [0..<length entries])"
proof -
  obtain g0 where g0: "newWorldleGame v = Inr g0"
    using newWorldleGame_total [OF assms(1)] by blast
  obtain g where g: "addGuesses bg g0 = Inr g"
    using addGuesses_total [OF assms(2)] by blast
  have ok: "\<forall>i<length entries. leftFor (bg @ [entries ! i]) valid v =
              Inr (projr (leftFor (bg @ [entries ! i]) valid v))"
  proof (intro allI impI)
    fix i assume "i < length entries"
    then have "okWord (entries ! i)" using assms(3) by (simp add: list_all_length)
    then have "list_all okWord (bg @ [entries ! i])" using assms(2) by simp
    from leftFor_projr [OF assms(1) this assms(4)]
    show "leftFor (bg @ [entries ! i]) valid v = Inr (projr (leftFor (bg @ [entries ! i]) valid v))" .
  qed
  have "scoreAnswer entries bg valid v sc =
          Inr (map (\<lambda>i. if i < length entries then sc ! i + projr (leftFor (bg @ [entries ! i]) valid v)
                         else sc ! i) [0..<length sc])"
    using scoreEntries_upto [OF g0 g ok, of "length entries" sc] assms(5) g0 g
    by (simp add: scoreAnswer_def)
  then show ?thesis using assms(5) by simp
qed

lemma scoreAnswers_val:
  assumes "list_all okWord vs" "list_all okWord bg" "list_all okWord entries" "list_all okWord valid"
    and "length sc = length entries"
  shows "forEach vs (scoreAnswer entries bg valid) sc =
           Inr (map (\<lambda>i. sc ! i + (\<Sum>v\<leftarrow>vs. projr (leftFor (bg @ [entries ! i]) valid v)))
                  [0..<length entries])"
  using assms(1,5)
proof (induction vs arbitrary: sc)
  case Nil
  have "map (\<lambda>i. sc ! i) [0..<length sc] = sc" by (rule map_nth)
  with Nil show ?case by simp
next
  case (Cons v vs)
  let ?s1 = "map (\<lambda>i. sc ! i + projr (leftFor (bg @ [entries ! i]) valid v)) [0..<length entries]"
  have v: "okWord v" and vs: "list_all okWord vs" using Cons.prems(1) by simp_all
  have s: "scoreAnswer entries bg valid v sc = Inr ?s1"
    using scoreAnswer_val [OF v assms(2,3,4) Cons.prems(2)] .
  have l: "length ?s1 = length entries" by simp
  have "forEach vs (scoreAnswer entries bg valid) ?s1 =
          Inr (map (\<lambda>i. ?s1 ! i + (\<Sum>v\<leftarrow>vs. projr (leftFor (bg @ [entries ! i]) valid v)))
                 [0..<length entries])"
    using Cons.IH [OF vs l] .
  also have "map (\<lambda>i. ?s1 ! i + (\<Sum>v\<leftarrow>vs. projr (leftFor (bg @ [entries ! i]) valid v)))
                 [0..<length entries] =
             map (\<lambda>i. sc ! i + (\<Sum>v\<leftarrow>v # vs. projr (leftFor (bg @ [entries ! i]) valid v)))
                 [0..<length entries]"
    by (intro nth_equalityI) simp_all
  finally show ?case using s by simp
qed

lemma min_scan_first_min:
  assumes "length ys = i" "k < i" "ys ! k = v"
    and "\<forall>j<i. v \<le> ys ! j" "\<forall>j<k. v < ys ! j"
  shows "min_scan xs k v i < length (ys @ xs) \<and>
         (\<forall>j<length (ys @ xs). (ys @ xs) ! min_scan xs k v i \<le> (ys @ xs) ! j) \<and>
         (\<forall>j<min_scan xs k v i. (ys @ xs) ! min_scan xs k v i < (ys @ xs) ! j)"
  using assms
proof (induction xs arbitrary: ys i k v)
  case Nil
  then show ?case by simp
next
  case (Cons x xs)
  let ?ys = "ys @ [x]"
  have app: "?ys @ xs = ys @ x # xs" by simp
  show ?case
  proof (cases "x < v")
    case True
    have "length ?ys = Suc i" "i < Suc i" "?ys ! i = x"
      using Cons.prems(1) by (simp_all add: nth_append)
    moreover have "\<forall>j<Suc i. x \<le> ?ys ! j"
      using Cons.prems True by (auto simp: nth_append less_Suc_eq)
    moreover have "\<forall>j<i. x < ?ys ! j"
      using Cons.prems True by (auto simp: nth_append)
    ultimately show ?thesis
      using Cons.IH [of ?ys "Suc i" i x] True app by simp
  next
    case False
    have "length ?ys = Suc i" "k < Suc i" "?ys ! k = v"
      using Cons.prems by (simp_all add: nth_append)
    moreover have "\<forall>j<Suc i. v \<le> ?ys ! j"
      using Cons.prems False by (auto simp: nth_append less_Suc_eq)
    moreover have "\<forall>j<k. v < ?ys ! j"
      using Cons.prems by (auto simp: nth_append)
    ultimately show ?thesis
      using Cons.IH [of ?ys "Suc i" k v] False app by simp
  qed
qed

lemma min_element_first_min:
  assumes "sc \<noteq> []"
  shows "min_element sc < length sc \<and>
         (\<forall>j<length sc. sc ! min_element sc \<le> sc ! j) \<and>
         (\<forall>j<min_element sc. sc ! min_element sc < sc ! j)"
proof -
  obtain x xs where sc: "sc = x # xs" using assms by (cases sc) auto
  from min_scan_first_min [of "[x]" 1 0 x xs] sc show ?thesis
    by (simp add: min_element_def)
qed

text \<open>
  The loop as it is written, had \<open>scores\<close> one entry per dictionary word (the program
  never gives it any): the round returns; the score at index \<open>i\<close> grows by a sum over the
  feasible set, each feasible answer \<open>v\<close> in turn being taken as the answer, given the
  guesses made so far and the guess \<open>i\<close>, and the feasible answers its game matches being
  counted; the guess committed is the word at the first index where the scores are
  smallest.
\<close>

lemma sized_round_scores:
  assumes "entries \<noteq> []" "list_all okWord entries"
    and "list_all okWord (valid_answers st)" "list_all okWord (best_guesses st)"
    and "length (scores st) = length entries"
  shows "\<exists>scores' st'.
           scoreRound entries (best_guesses st) (valid_answers st) (scores st) = Inr scores' \<and>
           length scores' = length entries \<and>
           (\<forall>i<length entries.
              \<exists>counts. map (leftFor (best_guesses st @ [entries ! i]) (valid_answers st)) (valid_answers st)
                          = map Inr counts \<and>
                       scores' ! i = scores st ! i + sum_list counts) \<and>
           min_element scores' < length entries \<and>
           (\<forall>j<length entries. scores' ! min_element scores' \<le> scores' ! j) \<and>
           (\<forall>j<min_element scores'. scores' ! min_element scores' < scores' ! j) \<and>
           greedyRound entries st = Inr st' \<and>
           best_guesses st' = best_guesses st @ [entries ! min_element scores'] \<and>
           addGuess (entries ! min_element scores') (trial_game st) = Inr (trial_game st')"
proof -
  let ?bg = "best_guesses st" and ?va = "valid_answers st"
  define scores' where
    "scores' = map (\<lambda>i. scores st ! i + (\<Sum>v\<leftarrow>?va. projr (leftFor (?bg @ [entries ! i]) ?va v)))
                  [0..<length entries]"
  have sr: "scoreRound entries ?bg ?va (scores st) = Inr scores'"
    using scoreAnswers_val [OF assms(3,4,2,3,5)] by (simp add: scoreRound_def scores'_def)
  have len: "length scores' = length entries" by (simp add: scores'_def)
  have cnt: "\<forall>i<length entries.
              \<exists>counts. map (leftFor (?bg @ [entries ! i]) ?va) ?va = map Inr counts \<and>
                       scores' ! i = scores st ! i + sum_list counts"
  proof (intro allI impI)
    fix i assume i: "i < length entries"
    then have "okWord (entries ! i)" using assms(2) by (simp add: list_all_length)
    then have ok: "list_all okWord (?bg @ [entries ! i])" using assms(4) by simp
    let ?counts = "map (\<lambda>v. projr (leftFor (?bg @ [entries ! i]) ?va v)) ?va"
    have "\<forall>v\<in>set ?va. leftFor (?bg @ [entries ! i]) ?va v = Inr (projr (leftFor (?bg @ [entries ! i]) ?va v))"
      using assms(3) leftFor_projr [OF _ ok assms(3)] by (simp add: list_all_iff)
    then have "map (leftFor (?bg @ [entries ! i]) ?va) ?va = map Inr ?counts"
      by simp
    moreover have "scores' ! i = scores st ! i + sum_list ?counts"
      using i by (simp add: scores'_def)
    ultimately show "\<exists>counts. map (leftFor (?bg @ [entries ! i]) ?va) ?va = map Inr counts \<and>
                       scores' ! i = scores st ! i + sum_list counts"
      by blast
  qed
  have ne: "scores' \<noteq> []" using len assms(1) by auto
  note m = min_element_first_min [OF ne]
  have idx: "min_element scores' < length entries" using m len by simp
  then have okg: "okWord (entries ! min_element scores')"
    using assms(2) by (simp add: list_all_length)
  obtain tg where tg: "addGuess (entries ! min_element scores') (trial_game st) = Inr tg"
    using addGuess_total [OF okg] by blast
  obtain nv where nv: "keepMatching tg ?va = Inr nv"
    using keepMatching_total [OF assms(3)] by blast
  define st' where "st' = \<lparr>trial_game = tg, valid_answers = nv,
      best_guesses = ?bg @ [entries ! min_element scores'],
      scores = map (\<lambda>_. 0) scores', trial_count = trial_count st + 1\<rparr>"
  have gr: "greedyRound entries st = Inr st'"
    using sr idx tg nv by (simp add: greedyRound_def Let_def st'_def)
  have "best_guesses st' = ?bg @ [entries ! min_element scores']" "trial_game st' = tg"
    by (simp_all add: st'_def)
  with sr len cnt idx m gr tg show ?thesis
    by (metis (no_types, lifting))
qed

lemma sized_round_example:
  "scoreRound small_dict (best_guesses small_trial) (valid_answers small_trial) (scores small_trial) =
     Inr [6, 4, 6, 10] \<and>
   map_sum id best_guesses (greedyRound small_dict small_trial) = Inr [first_guess, bcccc]"
  by code_simp

text \<open>
  Claim C3 (in every round with more than one feasible answer, a score is computed for
  each candidate guess, the number of feasible answers that the trial game branched with
  the guess still matches, and the guess committed is the first one of smallest score)
  fails in the source on the four-word dictionary with the answer at index 0 and four
  candidate answers. No word shares a letter with the first guess, so all four stay
  feasible and the loop is entered; the counts the claim names are 1, 1, 2, 3; the round
  stops on \<^verbatim>\<open>scores[0]\<close>, outside the vector that was never sized, before any score
  is stored or any guess committed, and so does the trial.
\<close>

theorem greedy_round_stops:
  "seedTrial small_dict 0 4 = Inr small_seeded \<and>
   valid_answers small_seeded = small_dict \<and>
   scores small_seeded = [] \<and>
   map (specCountMatches (trial_game small_seeded) (valid_answers small_seeded)) small_dict =
     [Inr 1, Inr 1, Inr 2, Inr 3] \<and>
   scoreRound small_dict (best_guesses small_seeded) (valid_answers small_seeded)
     (scores small_seeded) = Inl OutOfBounds \<and>
   greedyRound small_dict small_seeded = Inl OutOfBounds \<and>
   runGreedyTrial small_dict 0 4 = Some (Inl OutOfBounds)"
proof -
  have ok: "list_all okWord small_dict" by code_simp
  have s: "seedTrial small_dict 0 4 = Inr small_seeded" by code_simp
  have v: "valid_answers small_seeded = small_dict" by code_simp
  have e: "scores small_seeded = []" by code_simp
  have len: "1 < length (valid_answers small_seeded)" by code_simp
  have c: "map (specCountMatches (trial_game small_seeded) (valid_answers small_seeded)) small_dict =
     [Inr 1, Inr 1, Inr 2, Inr 3]"
    by code_simp
  have r: "scoreRound small_dict (best_guesses small_seeded) (valid_answers small_seeded)
     (scores small_seeded) = Inl OutOfBounds"
    by code_simp
  have g: "greedyRound small_dict small_seeded = Inl OutOfBounds"
    using greedyRound_unsized [OF s len ok] .
  have t: "runGreedyTrial small_dict 0 4 = Some (Inl OutOfBounds)"
    using loop_entered_unsized [OF s len ok] s by (simp add: runGreedyTrial_def)
  from s v e c r g t show ?thesis by blast
qed

end
